theory Spec2Isabelle
  imports Complex_Main "HOL-Library.Word"
begin

unbundle bit_operations_syntax

section \<open>JavaScript values used by the voice client\<close>

text \<open>
  A JavaScript string is a sequence of UTF-16 code units. String literals of the source
  are written \<open>lit ''...''\<close>.
\<close>

type_synonym jsstring = "16 word list"

definition lit :: "string \<Rightarrow> jsstring" where
  "lit s = map of_char s"

text \<open>
  \<open>String.prototype.trim\<close> removes the ECMAScript WhiteSpace and LineTerminator code
  points from both ends. All of them lie in the basic plane, so the test is on code units.
\<close>

definition is_whitespace :: "16 word \<Rightarrow> bool" where
  "is_whitespace c \<longleftrightarrow>
     c \<in> {0x0009, 0x000A, 0x000B, 0x000C, 0x000D, 0x0020, 0x00A0, 0x1680,
          0x2000, 0x2001, 0x2002, 0x2003, 0x2004, 0x2005, 0x2006, 0x2007, 0x2008,
          0x2009, 0x200A, 0x2028, 0x2029, 0x202F, 0x205F, 0x3000, 0xFEFF}"

definition trim :: "jsstring \<Rightarrow> jsstring" where
  "trim s = rev (dropWhile is_whitespace (rev (dropWhile is_whitespace s)))"


fun truthy_bool :: "bool option \<Rightarrow> bool" where
  "truthy_bool None = False"
| "truthy_bool (Some b) = b"

text \<open>Decimal printing of a non-negative integer, as a template literal does.\<close>

fun digits10 :: "nat \<Rightarrow> nat list" where
  "digits10 n = (if n < 10 then [n] else digits10 (n div 10) @ [n mod 10])"

definition Number_toString :: "nat \<Rightarrow> jsstring" where
  "Number_toString n = map (\<lambda>d. 48 + of_nat d) (digits10 n)"

text \<open>
  Numbers. A \<open>Float32Array\<close> element read into a JavaScript number is either a finite
  value, an infinity or NaN. Finite values are modelled by the real they denote. The
  product of a single-precision value and \<open>32768\<close> is exact in double precision, so
  \<open>Number_multiply\<close> on finite values is the real product.
\<close>

datatype number = Finite real | PosInfinity | NegInfinity | NaN

fun Number_multiply :: "number \<Rightarrow> number \<Rightarrow> number" where
  "Number_multiply NaN _ = NaN"
| "Number_multiply _ NaN = NaN"
| "Number_multiply (Finite x) (Finite y) = Finite (x * y)"
| "Number_multiply (Finite x) PosInfinity =
     (if x = 0 then NaN else if 0 < x then PosInfinity else NegInfinity)"
| "Number_multiply (Finite x) NegInfinity =
     (if x = 0 then NaN else if 0 < x then NegInfinity else PosInfinity)"
| "Number_multiply PosInfinity (Finite y) =
     (if y = 0 then NaN else if 0 < y then PosInfinity else NegInfinity)"
| "Number_multiply NegInfinity (Finite y) =
     (if y = 0 then NaN else if 0 < y then NegInfinity else PosInfinity)"
| "Number_multiply PosInfinity PosInfinity = PosInfinity"
| "Number_multiply PosInfinity NegInfinity = NegInfinity"
| "Number_multiply NegInfinity PosInfinity = NegInfinity"
| "Number_multiply NegInfinity NegInfinity = PosInfinity"

text \<open>
  Storing a number into an \<open>Int16Array\<close> applies ToInt16: a non-finite number becomes
  \<open>0\<close>; a finite one is truncated towards zero and reduced modulo \<open>2 ^ 16\<close>. The
  element is a \<open>16 word\<close>, read as a signed value by \<open>sint\<close>.
\<close>

definition js_truncate :: "real \<Rightarrow> int" where
  "js_truncate x = (if 0 \<le> x then \<lfloor>x\<rfloor> else \<lceil>x\<rceil>)"

fun ToInt16 :: "number \<Rightarrow> 16 word" where
  "ToInt16 (Finite x) = word_of_int (js_truncate x)"
| "ToInt16 _ = 0"

subsection \<open>Sums and quotients of doubles\<close>

text \<open>
  A JavaScript number is an IEEE 754 double. The finite doubles are the reals
  \<open>k * 2 ^ e\<close> with \<open>\<bar>k\<bar> < 2 ^ 53\<close> and \<open>- 1074 \<le> e\<close>, up to \<open>Number.MAX_VALUE\<close>. A sum or
  a quotient of two doubles is the exact result rounded to the nearest double, a tie
  going to the one whose \<open>k\<close> is even.

  \<open>binade x\<close> is the exponent \<open>b\<close> with \<open>2 ^ b \<le> x < 2 ^ (b + 1)\<close>, found by halving or
  doubling \<open>x\<close>; \<open>quantum x\<close> is the distance between neighbouring doubles at \<open>x\<close>, which
  is \<open>2 ^ (b - 52)\<close> and never less than \<open>2 ^ - 1074\<close>; \<open>to_double\<close> rounds a real to a
  double and \<open>is_double\<close> tells whether a real is one.

  Infinity and NaN are not among the reals: \<open>overflows x\<close> tells that the exact result
  \<open>x\<close> is rounded to an infinity by JavaScript, where \<open>to_double x\<close> stays finite.
\<close>

function binade_up :: "real \<Rightarrow> int" where
  "binade_up x = (if 2 \<le> x then binade_up (x / 2) + 1 else 0)"
  by pat_completeness auto
termination
proof (relation "measure (\<lambda>x. nat \<lfloor>x\<rfloor>)")
  show "wf (measure (\<lambda>x::real. nat \<lfloor>x\<rfloor>))" by simp
next
  fix x :: real assume "2 \<le> x"
  then have "\<lfloor>x / 2\<rfloor> < \<lfloor>x\<rfloor>" by linarith
  moreover have "0 < \<lfloor>x\<rfloor>" using \<open>2 \<le> x\<close> by linarith
  ultimately show "(x / 2, x) \<in> measure (\<lambda>x. nat \<lfloor>x\<rfloor>)" by simp
qed

function binade_down :: "real \<Rightarrow> int" where
  "binade_down x = (if 0 < x \<and> x < 1 then binade_down (2 * x) - 1 else 0)"
  by pat_completeness auto
termination
proof (relation "measure (\<lambda>x. nat \<lceil>1 / x\<rceil>)")
  show "wf (measure (\<lambda>x::real. nat \<lceil>1 / x\<rceil>))" by simp
next
  fix x :: real assume a: "0 < x \<and> x < 1"
  define z where "z = 1 / x"
  have one: "1 < z" unfolding z_def using a by simp
  have "2 \<le> \<lceil>z\<rceil>"
    using one by linarith
  then have b: "(2::real) \<le> of_int \<lceil>z\<rceil>"
    by linarith
  have c: "z \<le> of_int \<lceil>z\<rceil>"
    by linarith
  have "z / 2 \<le> of_int \<lceil>z\<rceil> - 1"
    using b c by linarith
  also have "\<dots> = of_int (\<lceil>z\<rceil> - 1)"
    by simp
  finally have "\<lceil>z / 2\<rceil> \<le> \<lceil>z\<rceil> - 1"
    by (rule ceiling_le)
  then have lt: "\<lceil>z / 2\<rceil> < \<lceil>z\<rceil>"
    by linarith
  have eq: "1 / (2 * x) = z / 2"
    by (simp add: z_def)
  have "\<lceil>1 / (2 * x)\<rceil> < \<lceil>1 / x\<rceil>"
    using lt by (simp only: eq z_def [symmetric])
  moreover have "0 < \<lceil>1 / x\<rceil>"
    using one unfolding z_def by linarith
  ultimately show "(2 * x, x) \<in> measure (\<lambda>x. nat \<lceil>1 / x\<rceil>)" by simp
qed

declare binade_up.simps [simp del] binade_down.simps [simp del]

definition binade :: "real \<Rightarrow> int" where
  "binade x = (if 1 \<le> x then binade_up x else binade_down x)"

definition quantum :: "real \<Rightarrow> real" where
  "quantum x = 2 powi (max (binade \<bar>x\<bar>) (- 1022) - 52)"

definition round_half_even :: "real \<Rightarrow> int" where
  "round_half_even y =
     (if y - of_int \<lfloor>y\<rfloor> < 1 / 2 then \<lfloor>y\<rfloor>
      else if 1 / 2 < y - of_int \<lfloor>y\<rfloor> then \<lfloor>y\<rfloor> + 1
      else if even \<lfloor>y\<rfloor> then \<lfloor>y\<rfloor> else \<lfloor>y\<rfloor> + 1)"

definition to_double :: "real \<Rightarrow> real" where
  "to_double x = of_int (round_half_even (x / quantum x)) * quantum x"

definition is_double :: "real \<Rightarrow> bool" where
  "is_double x \<longleftrightarrow> x / quantum x = of_int \<lfloor>x / quantum x\<rfloor>"

definition overflows :: "real \<Rightarrow> bool" where
  "overflows x \<longleftrightarrow> 2 ^ 1024 - 2 ^ 970 \<le> \<bar>x\<bar>"

text \<open>\<open>a + b\<close> and \<open>a / b\<close> on doubles.\<close>

definition Number_add :: "real \<Rightarrow> real \<Rightarrow> real" where
  "Number_add a b = to_double (a + b)"

definition Number_divide :: "real \<Rightarrow> real \<Rightarrow> real" where
  "Number_divide a b = to_double (a / b)"

section \<open>The capture path: \<open>createBlob\<close>\<close>

definition INPUT_SAMPLE_RATE :: nat where
  "INPUT_SAMPLE_RATE = 16000"

definition OUTPUT_SAMPLE_RATE :: nat where
  "OUTPUT_SAMPLE_RATE = 24000"

definition SCRIPT_PROCESSOR_BUFFER_SIZE :: nat where
  "SCRIPT_PROCESSOR_BUFFER_SIZE = 4096"

text \<open>The SDK's \<open>Blob\<close>: both fields are optional in its declaration.\<close>

record Blob =
  data :: "jsstring option"
  mimeType :: "jsstring option"

text \<open>
  The loop of \<open>createBlob\<close> that fills \<open>int16\<close>: element \<open>i\<close> receives
  \<open>data[i] * 32768\<close>.
\<close>

definition int16_of :: "number list \<Rightarrow> 16 word list" where
  "int16_of samples = map (\<lambda>s. ToInt16 (Number_multiply s (Finite 32768))) samples"

text \<open>
  \<open>new Uint8Array(int16.buffer)\<close> views the same memory as bytes. The byte order is the
  platform's; it is little-endian here, as on the platforms browsers run on.
\<close>

definition Uint8Array_of :: "16 word list \<Rightarrow> 8 word list" where
  "Uint8Array_of ws = concat (map (\<lambda>w. [ucast w, ucast (drop_bit 8 w)]) ws)"

text \<open>
  \<open>encode\<close> comes from \<open>utils/audioUtils\<close>, which is not among the sources: it is a
  parameter of \<open>createBlob\<close>.
\<close>

definition createBlob :: "(8 word list \<Rightarrow> jsstring) \<Rightarrow> number list \<Rightarrow> Blob" where
  "createBlob encode samples =
     \<lparr> data = Some (encode (Uint8Array_of (int16_of samples))),
       mimeType = Some (lit ''audio/pcm;rate='' @ Number_toString INPUT_SAMPLE_RATE) \<rparr>"

text \<open>
  The capture handler \<open>onaudioprocess\<close>: the blob made from channel 0 of the input
  buffer is what \<open>sendRealtimeInput\<close> receives as \<open>media\<close>.
\<close>

definition onaudioprocess :: "(8 word list \<Rightarrow> jsstring) \<Rightarrow> number list \<Rightarrow> Blob" where
  "onaudioprocess encode inputData = createBlob encode inputData"

section \<open>Exceptions\<close>

text \<open>
  \<open>Error m\<close> is \<open>new Error(m)\<close> built by the code of this repository; \<open>TypeError\<close> is
  the engine's error for reading a property of \<open>undefined\<close> (its message is the
  engine's); \<open>Foreign m\<close> is an exception with message \<open>m\<close> raised by a collaborator
  that is not among the sources: the browser, the vendor SDK, or a helper of
  \<open>utils/audioUtils\<close>. Such a collaborator returns \<open>Inl m\<close> when it fails.
\<close>

datatype exn = Error jsstring | TypeError jsstring | Foreign jsstring

fun message :: "exn \<Rightarrow> jsstring" where
  "message (Error m) = m"
| "message (TypeError m) = m"
| "message (Foreign m) = m"

section \<open>The shared output audio context\<close>

datatype AudioContextState = suspended | running | closed

record AudioContext =
  state :: AudioContextState
  sampleRate :: nat

text \<open>
  \<open>AudioContext\<close> objects live in a store and are referred to by address, since the
  module variable \<open>outputAudioContext\<close> and the callers of \<open>getOutputAudioContext\<close>
  share one object whose \<open>state\<close> the browser changes. \<open>allocated\<close> is the next free
  address. A context is created in state \<open>suspended\<close>.
\<close>

record audio_store =
  outputAudioContext :: "nat option"
  contexts :: "nat \<Rightarrow> AudioContext"
  allocated :: nat

definition new_AudioContext :: "nat \<Rightarrow> audio_store \<Rightarrow> nat \<times> audio_store" where
  "new_AudioContext rate st =
     (allocated st,
      st\<lparr> contexts := (contexts st)(allocated st := \<lparr> state = suspended, sampleRate = rate \<rparr>),
          allocated := Suc (allocated st) \<rparr>)"

definition getOutputAudioContext :: "audio_store \<Rightarrow> nat \<times> audio_store" where
  "getOutputAudioContext st =
     (let create = (case new_AudioContext OUTPUT_SAMPLE_RATE st of
                      (r, st') \<Rightarrow> (r, st'\<lparr> outputAudioContext := Some r \<rparr>))
      in case outputAudioContext st of
           None \<Rightarrow> create
         | Some r \<Rightarrow> if state (contexts st r) = closed then create else (r, st))"

section \<open>Messages of the live session\<close>

text \<open>
  The parts of the SDK's message types that the code reads. Every field is optional in
  the SDK's declarations.
\<close>

datatype Part = Part (inlineData: "Blob option")

datatype Content = Content (parts: "Part list option")

datatype Transcription = Transcription (text': "jsstring option")

record LiveServerContent =
  modelTurn :: "Content option"
  interrupted :: "bool option"
  inputTranscription :: "Transcription option"
  outputTranscription :: "Transcription option"
  turnComplete :: "bool option"

datatype LiveServerMessage = LiveServerMessage (serverContent: "LiveServerContent option")

text \<open>
  An \<open>AudioBuffer\<close>: its length in sample frames and its sample rate. The attribute
  \<open>duration\<close> is the quotient of the two, a double. A buffer cannot be created with a
  sample rate of \<open>0\<close>.
\<close>

record AudioBuffer =
  frames :: nat
  bufferRate :: nat

definition duration :: "AudioBuffer \<Rightarrow> real" where
  "duration b = Number_divide (real (frames b)) (real (bufferRate b))"

section \<open>The playback path: \<open>onmessage\<close> of \<open>startConversation\<close>\<close>

text \<open>
  \<open>createBufferSource\<close> returns a new node each time; \<open>node\<close> is its identity. The
  \<open>start\<close> and \<open>stop\<close> calls made on nodes are recorded in \<open>calls\<close>. \<open>sources\<close> is
  the \<open>Set\<close> of the source, in insertion order.
\<close>

record AudioBufferSourceNode =
  node :: nat
  buffer :: AudioBuffer

datatype playback_call = start AudioBufferSourceNode real | stop AudioBufferSourceNode

record conversation =
  nextStartTime :: real
  sources :: "AudioBufferSourceNode list"
  created :: nat
  calls :: "playback_call list"

definition Set_add :: "'a \<Rightarrow> 'a list \<Rightarrow> 'a list" where
  "Set_add x xs = (if x \<in> set xs then xs else xs @ [x])"

definition Set_delete :: "'a \<Rightarrow> 'a list \<Rightarrow> 'a list" where
  "Set_delete x xs = filter (\<lambda>y. y \<noteq> x) xs"

text \<open>The state \<open>startConversation\<close> sets up before any message arrives.\<close>

definition initial_conversation :: conversation where
  "initial_conversation = \<lparr> nextStartTime = 0, sources = [], created = 0, calls = [] \<rparr>"

text \<open>
  Line 76: \<open>message.serverContent?.modelTurn?.parts[0]?.inlineData?.data\<close>. There is no
  \<open>?.\<close> between \<open>parts\<close> and \<open>[0]\<close>: a model turn without \<open>parts\<close> raises a
  \<open>TypeError\<close>.
\<close>

definition base64Audio_of :: "LiveServerMessage \<Rightarrow> exn + jsstring option" where
  "base64Audio_of msg =
     (case serverContent msg of
        None \<Rightarrow> Inr None
      | Some sc \<Rightarrow>
          (case modelTurn sc of
             None \<Rightarrow> Inr None
           | Some mt \<Rightarrow>
               (case parts mt of
                  None \<Rightarrow> Inl (TypeError (lit ''Cannot read properties of undefined''))
                | Some [] \<Rightarrow> Inr None
                | Some (p # ps) \<Rightarrow>
                    (case inlineData p of None \<Rightarrow> Inr None | Some b \<Rightarrow> Inr (data b)))))"

text \<open>
  Lines 76 to 79, up to the \<open>await\<close>. \<open>decode\<close> and \<open>decodeAudioData\<close> belong to
  \<open>utils/audioUtils\<close> and are parameters; \<open>ctx\<close> is the address of
  \<open>localOutputAudioContext\<close> and \<open>now\<close> its \<open>currentTime\<close> when the message is handled.
  The handler is an \<open>async\<close> function: either it raises an exception, or the message has
  no audio and it goes on with line 91, or it is suspended at the \<open>await\<close> of line 79
  until the promise of \<open>decodeAudioData\<close> settles, \<open>Inl m\<close> being a rejection.
\<close>

datatype suspension = Raised exn | Skipped | Awaiting "jsstring + AudioBuffer"

definition schedule_audio_begin ::
  "(jsstring \<Rightarrow> jsstring + 8 word list) \<Rightarrow>
   (8 word list \<Rightarrow> nat \<Rightarrow> nat \<Rightarrow> nat \<Rightarrow> jsstring + AudioBuffer) \<Rightarrow>
   nat \<Rightarrow> real \<Rightarrow> LiveServerMessage \<Rightarrow> conversation \<Rightarrow> suspension \<times> conversation" where
  "schedule_audio_begin decode decodeAudioData ctx now msg st =
     (case base64Audio_of msg of
        Inl e \<Rightarrow> (Raised e, st)
      | Inr None \<Rightarrow> (Skipped, st)
      | Inr (Some base64Audio) \<Rightarrow>
          if base64Audio = [] then (Skipped, st)
          else
            (let st1 = st\<lparr> nextStartTime := max (nextStartTime st) now \<rparr>
             in case decode base64Audio of
                  Inl m \<Rightarrow> (Raised (Foreign m), st1)
                | Inr bytes \<Rightarrow>
                    (Awaiting (decodeAudioData bytes ctx OUTPUT_SAMPLE_RATE 1), st1)))"

text \<open>
  Lines 80 to 88, run when the promise is fulfilled with \<open>audioBuffer\<close>, in the state the
  conversation is in by then: the new source is started at \<open>nextStartTime\<close>, and
  \<open>nextStartTime += audioBuffer.duration\<close> is an addition of doubles.
\<close>

definition schedule_audio_resume :: "AudioBuffer \<Rightarrow> conversation \<Rightarrow> conversation" where
  "schedule_audio_resume audioBuffer st =
     (let source = \<lparr> node = created st, buffer = audioBuffer \<rparr>
      in st\<lparr> created := Suc (created st),
             calls := calls st @ [start source (nextStartTime st)],
             nextStartTime := Number_add (nextStartTime st) (duration audioBuffer),
             sources := Set_add source (sources st) \<rparr>)"

text \<open>
  Lines 76 to 89 when the promise settles before any other event is handled. The result
  carries the exception, if one was raised, and the state reached.
\<close>

definition schedule_audio ::
  "(jsstring \<Rightarrow> jsstring + 8 word list) \<Rightarrow>
   (8 word list \<Rightarrow> nat \<Rightarrow> nat \<Rightarrow> nat \<Rightarrow> jsstring + AudioBuffer) \<Rightarrow>
   nat \<Rightarrow> real \<Rightarrow> LiveServerMessage \<Rightarrow> conversation \<Rightarrow> exn option \<times> conversation" where
  "schedule_audio decode decodeAudioData ctx now msg st =
     (case schedule_audio_begin decode decodeAudioData ctx now msg st of
        (Raised e, st1) \<Rightarrow> (Some e, st1)
      | (Skipped, st1) \<Rightarrow> (None, st1)
      | (Awaiting (Inl m), st1) \<Rightarrow> (Some (Foreign m), st1)
      | (Awaiting (Inr audioBuffer), st1) \<Rightarrow> (None, schedule_audio_resume audioBuffer st1))"

text \<open>The \<open>ended\<close> listener installed on each source (lines 83 to 85).\<close>

definition ended :: "AudioBufferSourceNode \<Rightarrow> conversation \<Rightarrow> conversation" where
  "ended source st = st\<lparr> sources := Set_delete source (sources st) \<rparr>"

definition is_interrupted :: "LiveServerMessage \<Rightarrow> bool" where
  "is_interrupted msg =
     (case serverContent msg of None \<Rightarrow> False | Some sc \<Rightarrow> truthy_bool (interrupted sc))"

text \<open>Lines 91 to 97.\<close>

definition handle_interrupted :: "LiveServerMessage \<Rightarrow> conversation \<Rightarrow> conversation" where
  "handle_interrupted msg st =
     (if is_interrupted msg
      then st\<lparr> calls := calls st @ map stop (sources st), sources := [], nextStartTime := 0 \<rparr>
      else st)"

text \<open>Lines 99 to 101: \<open>?.text ?? null\<close> and \<open>!!turnComplete\<close>.\<close>

definition inputTranscript_of :: "LiveServerMessage \<Rightarrow> jsstring option" where
  "inputTranscript_of msg =
     (case serverContent msg of
        None \<Rightarrow> None
      | Some sc \<Rightarrow> (case inputTranscription sc of None \<Rightarrow> None | Some t \<Rightarrow> text' t))"

definition outputTranscript_of :: "LiveServerMessage \<Rightarrow> jsstring option" where
  "outputTranscript_of msg =
     (case serverContent msg of
        None \<Rightarrow> None
      | Some sc \<Rightarrow> (case outputTranscription sc of None \<Rightarrow> None | Some t \<Rightarrow> text' t))"

definition isTurnComplete_of :: "LiveServerMessage \<Rightarrow> bool" where
  "isTurnComplete_of msg =
     (case serverContent msg of None \<Rightarrow> False | Some sc \<Rightarrow> truthy_bool (turnComplete sc))"

text \<open>
  The whole handler, when the promise of line 79 settles before any other event is
  handled. \<open>callback\<close> is \<open>callbacks.onMessage\<close>, acting on the state \<open>app\<close> of its owner; it
  is not reached when the audio step raises.
\<close>

definition onmessage ::
  "(jsstring \<Rightarrow> jsstring + 8 word list) \<Rightarrow>
   (8 word list \<Rightarrow> nat \<Rightarrow> nat \<Rightarrow> nat \<Rightarrow> jsstring + AudioBuffer) \<Rightarrow>
   nat \<Rightarrow> (jsstring option \<Rightarrow> jsstring option \<Rightarrow> bool \<Rightarrow> 'app \<Rightarrow> 'app) \<Rightarrow>
   real \<Rightarrow> LiveServerMessage \<Rightarrow> conversation \<times> 'app \<Rightarrow> exn option \<times> conversation \<times> 'app" where
  "onmessage decode decodeAudioData ctx callback now msg s =
     (case s of (st, app) \<Rightarrow>
        (case schedule_audio decode decodeAudioData ctx now msg st of
           (Some e, st1) \<Rightarrow> (Some e, st1, app)
         | (None, st1) \<Rightarrow>
             (None, handle_interrupted msg st1,
              callback (inputTranscript_of msg) (outputTranscript_of msg)
                (isTurnComplete_of msg) app)))"

text \<open>
  \<open>onerror\<close> of \<open>startConversation\<close> (lines 104 to 106): the SDK's error event, of
  which only the message is read, is passed to \<open>callbacks.onError\<close> as a new \<open>Error\<close>.
\<close>

definition onerror :: "(exn \<Rightarrow> 'app \<Rightarrow> 'app) \<Rightarrow> jsstring \<Rightarrow> 'app \<Rightarrow> 'app" where
  "onerror callback event_message app = callback (Error event_message) app"

text \<open>
  What happens to a conversation over time: a message arrives while the output context's
  clock reads \<open>now\<close>, or a source finishes playing. An exception raised by the handler
  rejects its promise and the next event is handled in the state reached.
\<close>

datatype event = Message real LiveServerMessage | Ended AudioBufferSourceNode

fun handle_event ::
  "(jsstring \<Rightarrow> jsstring + 8 word list) \<Rightarrow>
   (8 word list \<Rightarrow> nat \<Rightarrow> nat \<Rightarrow> nat \<Rightarrow> jsstring + AudioBuffer) \<Rightarrow>
   nat \<Rightarrow> (jsstring option \<Rightarrow> jsstring option \<Rightarrow> bool \<Rightarrow> 'app \<Rightarrow> 'app) \<Rightarrow>
   conversation \<times> 'app \<Rightarrow> event \<Rightarrow> conversation \<times> 'app" where
  "handle_event decode decodeAudioData ctx callback s (Message now msg) =
     snd (onmessage decode decodeAudioData ctx callback now msg s)"
| "handle_event decode decodeAudioData ctx callback s (Ended source) =
     (ended source (fst s), snd s)"

definition run ::
  "(jsstring \<Rightarrow> jsstring + 8 word list) \<Rightarrow>
   (8 word list \<Rightarrow> nat \<Rightarrow> nat \<Rightarrow> nat \<Rightarrow> jsstring + AudioBuffer) \<Rightarrow>
   nat \<Rightarrow> (jsstring option \<Rightarrow> jsstring option \<Rightarrow> bool \<Rightarrow> 'app \<Rightarrow> 'app) \<Rightarrow>
   conversation \<times> 'app \<Rightarrow> event list \<Rightarrow> conversation \<times> 'app" where
  "run decode decodeAudioData ctx callback s events =
     foldl (handle_event decode decodeAudioData ctx callback) s events"

text \<open>
  Reading a run: the clock values of its messages, the chunks that were scheduled (clock
  value and duration of the decoded buffer, for each message whose audio was decoded), and
  the playback intervals requested (\<open>start\<close> time and duration, for each \<open>start\<close> call).
\<close>

fun clock :: "event list \<Rightarrow> real list" where
  "clock [] = []"
| "clock (Message now msg # es) = now # clock es"
| "clock (Ended source # es) = clock es"

definition chunk_of ::
  "(jsstring \<Rightarrow> jsstring + 8 word list) \<Rightarrow>
   (8 word list \<Rightarrow> nat \<Rightarrow> nat \<Rightarrow> nat \<Rightarrow> jsstring + AudioBuffer) \<Rightarrow>
   nat \<Rightarrow> LiveServerMessage \<Rightarrow> AudioBuffer option" where
  "chunk_of decode decodeAudioData ctx msg =
     (case base64Audio_of msg of
        Inr (Some base64Audio) \<Rightarrow>
          if base64Audio = [] then None
          else (case decode base64Audio of
                  Inl m \<Rightarrow> None
                | Inr bytes \<Rightarrow>
                    (case decodeAudioData bytes ctx OUTPUT_SAMPLE_RATE 1 of
                       Inl m \<Rightarrow> None
                     | Inr audioBuffer \<Rightarrow> Some audioBuffer))
      | _ \<Rightarrow> None)"

fun chunks ::
  "(jsstring \<Rightarrow> jsstring + 8 word list) \<Rightarrow>
   (8 word list \<Rightarrow> nat \<Rightarrow> nat \<Rightarrow> nat \<Rightarrow> jsstring + AudioBuffer) \<Rightarrow>
   nat \<Rightarrow> event list \<Rightarrow> (real \<times> real) list" where
  "chunks decode decodeAudioData ctx [] = []"
| "chunks decode decodeAudioData ctx (Message now msg # es) =
     (case chunk_of decode decodeAudioData ctx msg of
        None \<Rightarrow> chunks decode decodeAudioData ctx es
      | Some audioBuffer \<Rightarrow> (now, duration audioBuffer) # chunks decode decodeAudioData ctx es)"
| "chunks decode decodeAudioData ctx (Ended source # es) = chunks decode decodeAudioData ctx es"

fun scheduled :: "playback_call list \<Rightarrow> (real \<times> real) list" where
  "scheduled [] = []"
| "scheduled (start source t # cs) = (t, duration (buffer source)) # scheduled cs"
| "scheduled (stop source # cs) = scheduled cs"

fun interruption_free :: "event list \<Rightarrow> bool" where
  "interruption_free [] = True"
| "interruption_free (Message now msg # es) = (\<not> is_interrupted msg \<and> interruption_free es)"
| "interruption_free (Ended source # es) = interruption_free es"

text \<open>
  A back-to-back schedule of chunks, each given by the clock at its arrival and its
  duration: a chunk starts at the later of the end computed for the chunk before it and
  the clock, and the end computed for it is the sum of its start and its duration as
  doubles. \<open>finite_schedule\<close> says that no duration and no such sum has overflowed.
\<close>

fun back_to_back :: "real \<Rightarrow> (real \<times> real) list \<Rightarrow> (real \<times> real) list" where
  "back_to_back e [] = []"
| "back_to_back e ((now, d) # cs) = (max e now, d) # back_to_back (Number_add (max e now) d) cs"

definition finite_schedule :: "(real \<times> real) list \<Rightarrow> bool" where
  "finite_schedule S = list_all (\<lambda>(s, d). \<not> overflows d \<and> \<not> overflows (s + d)) S"

text \<open>
  The same conversation when handlers are suspended at line 79 while other events are
  handled. \<open>waiting\<close> holds the suspended handlers, each with its message and with the way
  its promise settles. A message arrives, or the promise of the handler at position \<open>k\<close>
  settles and the handler runs to its end, or a source finishes playing.
\<close>

datatype async_event =
    Arrives real LiveServerMessage
  | Settles nat
  | Finishes AudioBufferSourceNode

record 'app suspended_conversation =
  conv :: conversation
  owner :: 'app
  waiting :: "(LiveServerMessage \<times> (jsstring + AudioBuffer)) list"

fun handle_async_event ::
  "(jsstring \<Rightarrow> jsstring + 8 word list) \<Rightarrow>
   (8 word list \<Rightarrow> nat \<Rightarrow> nat \<Rightarrow> nat \<Rightarrow> jsstring + AudioBuffer) \<Rightarrow>
   nat \<Rightarrow> (jsstring option \<Rightarrow> jsstring option \<Rightarrow> bool \<Rightarrow> 'app \<Rightarrow> 'app) \<Rightarrow>
   'app suspended_conversation \<Rightarrow> async_event \<Rightarrow> 'app suspended_conversation" where
  "handle_async_event decode decodeAudioData ctx callback s (Arrives now msg) =
     (case schedule_audio_begin decode decodeAudioData ctx now msg (conv s) of
        (Raised e, st1) \<Rightarrow> s\<lparr> conv := st1 \<rparr>
      | (Skipped, st1) \<Rightarrow>
          s\<lparr> conv := handle_interrupted msg st1,
             owner := callback (inputTranscript_of msg) (outputTranscript_of msg)
                        (isTurnComplete_of msg) (owner s) \<rparr>
      | (Awaiting promise, st1) \<Rightarrow> s\<lparr> conv := st1, waiting := waiting s @ [(msg, promise)] \<rparr>)"
| "handle_async_event decode decodeAudioData ctx callback s (Settles k) =
     (if k < length (waiting s)
      then
        (case waiting s ! k of
           (msg, Inl m) \<Rightarrow> s\<lparr> waiting := take k (waiting s) @ drop (Suc k) (waiting s) \<rparr>
         | (msg, Inr audioBuffer) \<Rightarrow>
             s\<lparr> conv := handle_interrupted msg (schedule_audio_resume audioBuffer (conv s)),
                owner := callback (inputTranscript_of msg) (outputTranscript_of msg)
                           (isTurnComplete_of msg) (owner s),
                waiting := take k (waiting s) @ drop (Suc k) (waiting s) \<rparr>)
      else s)"
| "handle_async_event decode decodeAudioData ctx callback s (Finishes source) =
     s\<lparr> conv := ended source (conv s) \<rparr>"

definition run_async ::
  "(jsstring \<Rightarrow> jsstring + 8 word list) \<Rightarrow>
   (8 word list \<Rightarrow> nat \<Rightarrow> nat \<Rightarrow> nat \<Rightarrow> jsstring + AudioBuffer) \<Rightarrow>
   nat \<Rightarrow> (jsstring option \<Rightarrow> jsstring option \<Rightarrow> bool \<Rightarrow> 'app \<Rightarrow> 'app) \<Rightarrow>
   'app suspended_conversation \<Rightarrow> async_event list \<Rightarrow> 'app suspended_conversation" where
  "run_async decode decodeAudioData ctx callback s events =
     foldl (handle_async_event decode decodeAudioData ctx callback) s events"

fun async_interruption_free :: "async_event list \<Rightarrow> bool" where
  "async_interruption_free [] = True"
| "async_interruption_free (Arrives now msg # es) =
     (\<not> is_interrupted msg \<and> async_interruption_free es)"
| "async_interruption_free (Settles k # es) = async_interruption_free es"
| "async_interruption_free (Finishes source # es) = async_interruption_free es"

text \<open>
  No source starts before the end computed for the source started before it, and the
  last computed end is not after \<open>e\<close>.
\<close>

fun spaced :: "(real \<times> real) list \<Rightarrow> real \<Rightarrow> bool" where
  "spaced [] e = True"
| "spaced [(s, d)] e = (Number_add s d \<le> e)"
| "spaced ((s, d) # (s', d') # cs) e = (Number_add s d \<le> s' \<and> spaced ((s', d') # cs) e)"

section \<open>\<open>generateSpeech\<close>\<close>



text \<open>\<open>xs?.[0]\<close>: \<open>undefined\<close> when the array is absent or empty.\<close>

fun first :: "'a list option \<Rightarrow> 'a option" where
  "first None = None"
| "first (Some []) = None"
| "first (Some (x # xs)) = Some x"




section \<open>The data model of \<open>types.ts\<close>\<close>

datatype Author = user | gemini

record TranscriptionEntry =
  author :: Author
  "text" :: jsstring

datatype AppState = IDLE | CONNECTING | CONNECTED | ERROR

text \<open>\<open>AppState\<close> is a string enum: the value of each member.\<close>

fun AppState_value :: "AppState \<Rightarrow> jsstring" where
  "AppState_value IDLE = lit ''IDLE''"
| "AppState_value CONNECTING = lit ''CONNECTING''"
| "AppState_value CONNECTED = lit ''CONNECTED''"
| "AppState_value ERROR = lit ''ERROR''"

fun Author_value :: "Author \<Rightarrow> jsstring" where
  "Author_value user = lit ''user''"
| "Author_value gemini = lit ''gemini''"

section \<open>The \<open>App\<close> component\<close>

text \<open>A \<open>File\<close> chosen in the file input: its name and its content.\<close>

record File =
  name :: jsstring
  contents :: "8 word list"

text \<open>
  A \<open>LiveSession\<close> is identified by \<open>session\<close>. What the component does to the world
  outside its state is recorded in \<open>effects\<close>.
\<close>

record LiveSession =
  session :: nat

datatype effect =
    console_error jsstring exn
  | startConversation_called
  | sessionPromise_then nat
  | session_close nat
  | scriptProcessor_disconnect nat
  | source_disconnect nat
  | inputAudioContext_close nat
  | tracks_stop nat
  | playAudio AudioBuffer

record App =
  appState :: AppState
  transcriptionHistory :: "TranscriptionEntry list"
  error :: "jsstring option"
  uploadedFiles :: "File list"
  isProcessingFileQuery :: bool
  liveSessionRef :: "LiveSession option"
  currentInputTranscriptionRef :: jsstring
  currentOutputTranscriptionRef :: jsstring
  effects :: "effect list"

text \<open>The state of a freshly mounted component.\<close>

definition initial_App :: App where
  "initial_App =
     \<lparr> appState = IDLE, transcriptionHistory = [], error = None, uploadedFiles = [],
       isProcessingFileQuery = False, liveSessionRef = None,
       currentInputTranscriptionRef = [], currentOutputTranscriptionRef = [],
       effects = [] \<rparr>"

subsection \<open>Uploaded files\<close>

text \<open>
  A JavaScript \<open>Map\<close> keeps its entries in insertion order; \<open>set\<close> on a key that is
  present replaces the value in place, and appends otherwise.
\<close>

fun Map_set :: "('k \<times> 'v) list \<Rightarrow> 'k \<Rightarrow> 'v \<Rightarrow> ('k \<times> 'v) list" where
  "Map_set [] k v = [(k, v)]"
| "Map_set ((k', v') # m) k v =
     (if k' = k then (k, v) # m else (k', v') # Map_set m k v)"

definition new_Map :: "('k \<times> 'v) list \<Rightarrow> ('k \<times> 'v) list" where
  "new_Map entries = foldl (\<lambda>m (k, v). Map_set m k v) [] entries"

definition Map_values :: "('k \<times> 'v) list \<Rightarrow> 'v list" where
  "Map_values m = map snd m"

text \<open>
  \<open>handleFileChange\<close>: \<open>files\<close> is \<open>event.target.files\<close>, which may be \<open>null\<close>.
\<close>

definition handleFileChange :: "File list option \<Rightarrow> App \<Rightarrow> App" where
  "handleFileChange files st =
     (case files of
        None \<Rightarrow> st
      | Some newFiles \<Rightarrow>
          st\<lparr> uploadedFiles :=
                Map_values
                  (foldl (\<lambda>fileMap file. Map_set fileMap (name file) file)
                     (new_Map (map (\<lambda>file. (name file, file)) (uploadedFiles st)))
                     newFiles) \<rparr>)"

definition handleRemoveFile :: "jsstring \<Rightarrow> App \<Rightarrow> App" where
  "handleRemoveFile fileName st =
     st\<lparr> uploadedFiles := filter (\<lambda>file. name file \<noteq> fileName) (uploadedFiles st) \<rparr>"

datatype file_operation = Select "File list option" | Remove jsstring

fun file_step :: "App \<Rightarrow> file_operation \<Rightarrow> App" where
  "file_step st (Select files) = handleFileChange files st"
| "file_step st (Remove fileName) = handleRemoveFile fileName st"

subsection \<open>The callbacks of \<open>handleStart\<close>\<close>

text \<open>
  \<open>close\<close> of the object \<open>startConversation\<close> returns (lines 128 to 135). It does not call
  \<open>session.close()\<close>: it registers a reaction on \<open>sessionPromise\<close>, the promise of
  \<open>ai.live.connect\<close>, recorded as \<open>sessionPromise_then\<close>, and then performs the four other
  steps at once.
\<close>

definition close :: "LiveSession \<Rightarrow> effect list" where
  "close ls =
     [sessionPromise_then (session ls), scriptProcessor_disconnect (session ls),
      source_disconnect (session ls), inputAudioContext_close (session ls),
      tracks_stop (session ls)]"

text \<open>
  A reaction registered with \<open>then\<close> runs as a job of its own, once the code that
  registered it has returned, and only if the promise is fulfilled. \<open>settled n\<close> tells how
  the \<open>sessionPromise\<close> of session \<open>n\<close> ends; \<open>reactions settled es\<close> is what the reactions
  registered in \<open>es\<close> do when they run.
\<close>

datatype settlement = fulfilled | rejected | pending

fun reaction :: "(nat \<Rightarrow> settlement) \<Rightarrow> effect \<Rightarrow> effect list" where
  "reaction settled (sessionPromise_then n) =
     (if settled n = fulfilled then [session_close n] else [])"
| "reaction settled e = []"

definition reactions :: "(nat \<Rightarrow> settlement) \<Rightarrow> effect list \<Rightarrow> effect list" where
  "reactions settled es = concat (map (reaction settled) es)"

definition stopConversation :: "LiveSession \<Rightarrow> effect list" where
  "stopConversation liveSession = close liveSession"

text \<open>
  The synchronous beginning of \<open>handleStart\<close>, up to the call of \<open>startConversation\<close>.
\<close>

definition handleStart_begin :: "App \<Rightarrow> App" where
  "handleStart_begin st =
     st\<lparr> error := None, appState := CONNECTING, transcriptionHistory := [],
         effects := effects st @ [startConversation_called] \<rparr>"

definition onError :: "exn \<Rightarrow> App \<Rightarrow> App" where
  "onError e st =
     (let st1 = st\<lparr> effects := effects st @ [console_error (lit ''Gemini Live API Error:'') e],
                    error := Some (lit ''An error occurred: '' @ message e
                                   @ lit ''. Please try again.''),
                    appState := ERROR \<rparr>
      in case liveSessionRef st1 of
           None \<Rightarrow> st1
         | Some liveSession \<Rightarrow>
             st1\<lparr> effects := effects st1 @ stopConversation liveSession,
                  liveSessionRef := None \<rparr>)"

text \<open>
  \<open>acc += fragment\<close> behind \<open>if (fragment)\<close>: \<open>null\<close> and the empty string leave the
  accumulator as it is.
\<close>

definition accumulate :: "jsstring \<Rightarrow> jsstring option \<Rightarrow> jsstring" where
  "accumulate acc fragment =
     (case fragment of None \<Rightarrow> acc | Some s \<Rightarrow> if s = [] then acc else acc @ s)"

text \<open>
  \<open>onMessage\<close> is an \<open>async\<close> function. It runs without interruption up to its first
  \<open>await\<close> (line 291), which is reached only when a turn completes with a non-empty
  input and \<open>files\<close> is not empty; there the call is suspended and other events are
  handled until the awaited promise settles. \<open>files\<close> is the value of \<open>uploadedFiles\<close>
  captured when \<open>handleStart\<close> was created.

  \<open>onMessage_begin\<close> is the part before the suspension (lines 264 to 289, and lines
  304 and 305 when no file query is started). Its second result is the input of the file
  query it has started, if any.
\<close>

definition onMessage_begin ::
  "File list \<Rightarrow> jsstring option \<Rightarrow> jsstring option \<Rightarrow> bool \<Rightarrow> App \<Rightarrow> App \<times> jsstring option" where
  "onMessage_begin files inputTranscript outputTranscript isTurnComplete st =
     (let st1 = st\<lparr> currentInputTranscriptionRef :=
                      accumulate (currentInputTranscriptionRef st) inputTranscript \<rparr>;
          st2 = st1\<lparr> currentOutputTranscriptionRef :=
                      accumulate (currentOutputTranscriptionRef st1) outputTranscript \<rparr>
      in if isTurnComplete
         then
           (let fullInput = trim (currentInputTranscriptionRef st2);
                fullOutput = trim (currentOutputTranscriptionRef st2);
                newHistory =
                  (if fullInput \<noteq> [] then [\<lparr> author = user, text = fullInput \<rparr>] else [])
                  @ (if fullOutput \<noteq> [] then [\<lparr> author = gemini, text = fullOutput \<rparr>] else []);
                st3 = (if 0 < length newHistory
                       then st2\<lparr> transcriptionHistory := transcriptionHistory st2 @ newHistory \<rparr>
                       else st2)
            in if fullInput \<noteq> [] \<and> 0 < length files
               then (st3\<lparr> isProcessingFileQuery := True, error := None \<rparr>, Some fullInput)
               else (st3\<lparr> currentInputTranscriptionRef := [],
                          currentOutputTranscriptionRef := [] \<rparr>, None))
         else (st2, None))"

text \<open>
  \<open>onMessage_settle\<close> is the rest of a suspended call (lines 291 to 305), run when the
  promise of \<open>generateContentWithFiles\<close> has settled with \<open>answered\<close>. \<open>speak\<close> gives
  the outcome of \<open>generateSpeech\<close>; events between the two \<open>await\<close>s are not modelled.
\<close>

definition on_file_query_error :: "exn \<Rightarrow> App \<Rightarrow> App" where
  "on_file_query_error err st =
     st\<lparr> effects := effects st @ [console_error (lit ''Error processing file query:'') err],
         error := Some (lit ''Error answering question about files: '' @ message err) \<rparr>"

definition onMessage_settle ::
  "exn + jsstring \<Rightarrow> (jsstring \<Rightarrow> exn + AudioBuffer) \<Rightarrow> App \<Rightarrow> App" where
  "onMessage_settle answered speak st =
     (let st1 = (case answered of
                   Inl err \<Rightarrow> on_file_query_error err st
                 | Inr textResponse \<Rightarrow>
                     (let st' = st\<lparr> transcriptionHistory := transcriptionHistory st
                                   @ [\<lparr> author = gemini, text = textResponse \<rparr>] \<rparr>
                      in case speak textResponse of
                           Inl err \<Rightarrow> on_file_query_error err st'
                         | Inr audioBuffer \<Rightarrow>
                             st'\<lparr> effects := effects st' @ [playAudio audioBuffer] \<rparr>));
          st2 = st1\<lparr> isProcessingFileQuery := False \<rparr>
      in st2\<lparr> currentInputTranscriptionRef := [], currentOutputTranscriptionRef := [] \<rparr>)"

text \<open>
  A call of \<open>onMessage\<close> during which no other event is handled. \<open>answer\<close> gives the
  outcome of \<open>generateContentWithFiles\<close>.
\<close>

definition onMessage ::
  "(jsstring \<Rightarrow> File list \<Rightarrow> exn + jsstring) \<Rightarrow> (jsstring \<Rightarrow> exn + AudioBuffer) \<Rightarrow>
   File list \<Rightarrow> jsstring option \<Rightarrow> jsstring option \<Rightarrow> bool \<Rightarrow> App \<Rightarrow> App" where
  "onMessage answer speak files inputTranscript outputTranscript isTurnComplete st =
     (case onMessage_begin files inputTranscript outputTranscript isTurnComplete st of
        (st1, None) \<Rightarrow> st1
      | (st1, Some fullInput) \<Rightarrow> onMessage_settle (answer fullInput files) speak st1)"

text \<open>
  The entries a completed turn commits, given the two accumulators as they are once the
  fragments of the completing message have been added.
\<close>

definition committed :: "jsstring \<Rightarrow> jsstring \<Rightarrow> TranscriptionEntry list" where
  "committed accumulatedInput accumulatedOutput =
     (if trim accumulatedInput \<noteq> [] then [\<lparr> author = user, text = trim accumulatedInput \<rparr>]
      else [])
     @ (if trim accumulatedOutput \<noteq> []
        then [\<lparr> author = gemini, text = trim accumulatedOutput \<rparr>] else [])"

text \<open>A sequence of calls of \<open>onMessage\<close>, each given by its three arguments.\<close>

definition onMessage_calls ::
  "(jsstring \<Rightarrow> File list \<Rightarrow> exn + jsstring) \<Rightarrow> (jsstring \<Rightarrow> exn + AudioBuffer) \<Rightarrow>
   File list \<Rightarrow> App \<Rightarrow> (jsstring option \<times> jsstring option \<times> bool) list \<Rightarrow> App" where
  "onMessage_calls answer speak files st cs =
     foldl (\<lambda>s (i, o', t). onMessage answer speak files i o' t s)
       st cs"

text \<open>The fragments of a sequence of calls that are not \<open>null\<close>, concatenated in order.\<close>

definition fragments :: "jsstring option list \<Rightarrow> jsstring" where
  "fragments fs = concat (map (\<lambda>f. case f of None \<Rightarrow> [] | Some s \<Rightarrow> s) fs)"

section \<open>Properties of the capture path\<close>

lemma length_int16_of: "length (int16_of samples) = length samples"
  by (simp add: int16_of_def)

lemma length_Uint8Array_of: "length (Uint8Array_of ws) = 2 * length ws"
  by (induction ws) (simp_all add: Uint8Array_of_def)

lemma Number_toString_rate: "Number_toString INPUT_SAMPLE_RATE = lit ''16000''"
  by (simp add: Number_toString_def INPUT_SAMPLE_RATE_def lit_def)

lemma mimeType_literal:
  "lit ''audio/pcm;rate='' @ Number_toString INPUT_SAMPLE_RATE = lit ''audio/pcm;rate=16000''"
  by (simp add: Number_toString_rate) (simp add: lit_def)

text \<open>What ToInt16 stores, for every finite number: the truncation, wrapped to 16 bits.\<close>

lemma sint_ToInt16: "sint (ToInt16 (Finite x)) = signed_take_bit 15 (js_truncate x)"
  by (simp add: sint_sbintrunc')

lemma js_truncate_bounds:
  assumes "- 1 \<le> s" and "s < 1"
  shows "- 32768 \<le> js_truncate (s * 32768)" and "js_truncate (s * 32768) < 32768"
proof -
  have lo: "- 32768 \<le> s * 32768" and hi: "s * 32768 < 32768"
    using assms by simp_all
  show "- 32768 \<le> js_truncate (s * 32768)"
    using lo by (simp add: js_truncate_def le_floor_iff le_ceiling_iff)
  show "js_truncate (s * 32768) < 32768"
    using hi by (simp add: js_truncate_def floor_less_iff ceiling_less_iff)
qed

lemma js_truncate_close: "\<bar>real_of_int (js_truncate x) - x\<bar> < 1"
  unfolding js_truncate_def by (simp split: if_splits) linarith

lemma ToInt16_in_range:
  assumes "- 1 \<le> s" and "s < 1"
  shows "sint (ToInt16 (Number_multiply (Finite s) (Finite 32768))) = js_truncate (s * 32768)"
  using js_truncate_bounds [OF assms]
  by (simp add: sint_sbintrunc' signed_take_bit_int_eq_self)

lemma int16_of_nth:
  "i < length samples \<Longrightarrow>
   int16_of samples ! i = ToInt16 (Number_multiply (samples ! i) (Finite 32768))"
  by (simp add: int16_of_def)

lemma ToInt16_in_range':
  assumes "- 1 \<le> s" and "s < 1"
  shows "sint (word_of_int (js_truncate (s * 32768)) :: 16 word) = js_truncate (s * 32768)"
  using ToInt16_in_range [OF assms] by simp

lemma Uint8Array_of_min: "Uint8Array_of [- 32768] = [0x00, 0x80]"
  by (simp add: Uint8Array_of_def)

text \<open>
  Claim C3, as stated, says that every sample \<open>s\<close> is stored as the 16-bit integer
  \<open>s * 32768\<close>. A full-scale sample \<open>s = 1.0\<close> refutes it: \<open>1.0 * 32768 = 32768\<close> is
  outside the \<open>Int16\<close> range, and the element stored is \<open>-32768\<close> (bytes \<open>00 80\<close>).
\<close>

theorem createBlob_full_scale_counterexample:
  "int16_of [Finite 1] = [- 32768]
   \<and> real_of_int (sint (int16_of [Finite 1] ! 0)) \<noteq> 1 * 32768
   \<and> Uint8Array_of (int16_of [Finite 1]) = [0x00, 0x80]"
proof -
  have q: "int16_of [Finite 1] = [- 32768]"
    by (simp add: int16_of_def js_truncate_def)
  show ?thesis
    unfolding q Uint8Array_of_min by simp
qed

text \<open>
  Claim C3, amended. For a frame of \<open>SCRIPT_PROCESSOR_BUFFER_SIZE\<close> samples,
  \<open>createBlob\<close> produces one \<open>Int16\<close> per sample (4096 of them, 8192 bytes); every
  finite sample \<open>s\<close> with \<open>-1 \<le> s < 1\<close> is stored as \<open>s * 32768\<close> truncated towards
  zero, which differs from \<open>s * 32768\<close> by less than one; the \<open>data\<close> field is
  \<open>encode\<close> applied to the bytes of the \<open>Int16\<close> array, and the mime type is
  \<open>audio/pcm;rate=16000\<close>. The capture handler sends exactly this blob.
\<close>

theorem createBlob_wire_format:
  assumes "length frame = SCRIPT_PROCESSOR_BUFFER_SIZE"
  shows "length (int16_of frame) = 4096
    \<and> length (Uint8Array_of (int16_of frame)) = 8192
    \<and> (\<forall>i s. i < length frame \<and> frame ! i = Finite s \<and> - 1 \<le> s \<and> s < 1 \<longrightarrow>
          sint (int16_of frame ! i) = js_truncate (s * 32768)
          \<and> \<bar>real_of_int (sint (int16_of frame ! i)) - s * 32768\<bar> < 1)
    \<and> data (createBlob encode frame) = Some (encode (Uint8Array_of (int16_of frame)))
    \<and> mimeType (createBlob encode frame) = Some (lit ''audio/pcm;rate=16000'')
    \<and> onaudioprocess encode frame = createBlob encode frame"
proof -
  have len: "length (int16_of frame) = 4096"
    using assms by (simp add: length_int16_of SCRIPT_PROCESSOR_BUFFER_SIZE_def)
  have bytes: "length (Uint8Array_of (int16_of frame)) = 8192"
    by (simp add: length_Uint8Array_of len)
  have quant: "sint (int16_of frame ! i) = js_truncate (s * 32768)
      \<and> \<bar>real_of_int (sint (int16_of frame ! i)) - s * 32768\<bar> < 1"
    if "i < length frame" "frame ! i = Finite s" "- 1 \<le> s" "s < 1" for i s
  proof -
    have "sint (int16_of frame ! i) = js_truncate (s * 32768)"
      using that by (simp add: int16_of_nth ToInt16_in_range')
    then show ?thesis
      using js_truncate_close [of "s * 32768"] by simp
  qed
  have d: "data (createBlob encode frame) = Some (encode (Uint8Array_of (int16_of frame)))"
    by (simp add: createBlob_def)
  have m: "mimeType (createBlob encode frame) = Some (lit ''audio/pcm;rate=16000'')"
    by (simp add: createBlob_def mimeType_literal)
  have h: "onaudioprocess encode frame = createBlob encode frame"
    by (simp add: onaudioprocess_def)
  from len bytes quant d m h show ?thesis by blast
qed

theorem createBlob_wire_format_witness:
  "length (replicate 4096 (Finite (1 / 2))) = SCRIPT_PROCESSOR_BUFFER_SIZE
   \<and> replicate 4096 (Finite (1 / 2)) ! 7 = Finite (1 / 2)
   \<and> sint (int16_of (replicate 4096 (Finite (1 / 2))) ! 7) = 16384
   \<and> mimeType (createBlob (\<lambda>bytes. []) (replicate 4096 (Finite (1 / 2))))
       = Some (lit ''audio/pcm;rate=16000'')"
proof -
  let ?frame = "replicate 4096 (Finite (1 / 2))"
  have len: "length ?frame = SCRIPT_PROCESSOR_BUFFER_SIZE"
    by (simp add: SCRIPT_PROCESSOR_BUFFER_SIZE_def)
  have nth: "?frame ! 7 = Finite (1 / 2)"
    by simp
  have tr: "js_truncate (1 / 2 * 32768) = 16384"
    by (simp add: js_truncate_def)
  note th = createBlob_wire_format [OF len, of "\<lambda>bytes. []"]
  have i: "(7::nat) < length ?frame \<and> ?frame ! 7 = Finite (1 / 2) \<and> - 1 \<le> (1 / 2 :: real) \<and> (1 / 2 :: real) < 1"
    by simp
  from th have "sint (int16_of ?frame ! 7) = js_truncate (1 / 2 * 32768)"
    using i by blast
  moreover from th have "mimeType (createBlob (\<lambda>bytes. []) ?frame)
       = Some (lit ''audio/pcm;rate=16000'')"
    by blast
  ultimately show ?thesis using len nth tr by simp
qed

section \<open>Properties of rounding to a double\<close>

lemma binade_up_spec:
  "1 \<le> x \<Longrightarrow> 0 \<le> binade_up x \<and> 2 powi binade_up x \<le> x \<and> x < 2 powi (binade_up x + 1)"
proof (induction x rule: binade_up.induct)
  case (1 x)
  show ?case
  proof (cases "2 \<le> x")
    case True
    then have IH: "0 \<le> binade_up (x / 2) \<and> 2 powi binade_up (x / 2) \<le> x / 2
        \<and> x / 2 < 2 powi (binade_up (x / 2) + 1)"
      using "1.IH" by simp
    have eq: "binade_up x = binade_up (x / 2) + 1"
      using True by (subst binade_up.simps) simp
    show ?thesis
      using IH unfolding eq by (simp add: power_int_add)
  next
    case False
    then have "binade_up x = 0"
      by (subst binade_up.simps) simp
    with False "1.prems" show ?thesis by simp
  qed
qed

lemma binade_down_spec:
  "0 < x \<Longrightarrow> x < 1 \<Longrightarrow> 2 powi binade_down x \<le> x \<and> x < 2 powi (binade_down x + 1)"
proof (induction x rule: binade_down.induct)
  case (1 x)
  have eq: "binade_down x = binade_down (2 * x) - 1"
    using "1.prems" by (subst binade_down.simps) simp
  show ?case
  proof (cases "2 * x < 1")
    case True
    then have IH: "2 powi binade_down (2 * x) \<le> 2 * x
        \<and> 2 * x < 2 powi (binade_down (2 * x) + 1)"
      using "1.IH" "1.prems" by simp
    have p: "(2::real) powi (binade_down (2 * x)) = 2 * 2 powi (binade_down (2 * x) - 1)"
      by (simp add: power_int_diff)
    have q: "(2::real) powi (binade_down (2 * x) + 1) = 2 * 2 powi (binade_down (2 * x))"
      by (simp add: power_int_add)
    have lo: "2 powi (binade_down (2 * x) - 1) \<le> x"
      using IH p by simp
    have hi: "x < 2 powi (binade_down (2 * x) - 1 + 1)"
      using IH q by simp
    show ?thesis
      unfolding eq using lo hi by blast
  next
    case False
    then have "binade_down (2 * x) = 0"
      by (subst binade_down.simps) simp
    with False "1.prems" show ?thesis
      unfolding eq by simp
  qed
qed

text \<open>\<open>binade x\<close> is the exponent of the power of two at or below a positive \<open>x\<close>.\<close>

lemma binade_spec: "0 < x \<Longrightarrow> 2 powi binade x \<le> x \<and> x < 2 powi (binade x + 1)"
  using binade_up_spec [of x] binade_down_spec [of x]
  by (cases "1 \<le> x") (simp_all add: binade_def)

lemma binade_mono:
  assumes "0 < x" and "x \<le> y"
  shows "binade x \<le> binade y"
proof (rule ccontr)
  assume "\<not> binade x \<le> binade y"
  then have "binade y + 1 \<le> binade x" by simp
  then have "(2::real) powi (binade y + 1) \<le> 2 powi binade x"
    by (intro power_int_increasing) simp_all
  moreover have "y < 2 powi (binade y + 1)"
    using binade_spec [of y] assms by simp
  moreover have "2 powi binade x \<le> x"
    using binade_spec [OF assms(1)] by simp
  ultimately show False using assms(2) by linarith
qed

lemma binade_less:
  assumes "0 < x" and "x < 2 powi n"
  shows "binade x < n"
proof (rule ccontr)
  assume "\<not> binade x < n"
  then have "(2::real) powi n \<le> 2 powi binade x"
    by (intro power_int_increasing) simp_all
  with binade_spec [OF assms(1)] assms(2) show False by linarith
qed

lemma quantum_pos: "0 < quantum x"
  by (simp add: quantum_def)

lemma quantum_of_pos: "0 < x \<Longrightarrow> quantum x = 2 powi (max (binade x) (- 1022) - 52)"
  by (simp add: quantum_def)

lemma round_half_even_floor: "\<lfloor>y\<rfloor> \<le> round_half_even y"
  by (simp add: round_half_even_def)

lemma round_half_even_le: "round_half_even y \<le> \<lfloor>y\<rfloor> + 1"
  by (simp add: round_half_even_def)

lemma round_half_even_error: "\<bar>of_int (round_half_even y) - y\<bar> \<le> 1 / 2"
  unfolding round_half_even_def by (auto simp: abs_if) linarith+

text \<open>The rounding error is at most half a quantum.\<close>

lemma to_double_error: "\<bar>to_double x - x\<bar> \<le> quantum x / 2"
proof -
  have "to_double x - x = (of_int (round_half_even (x / quantum x)) - x / quantum x) * quantum x"
    using quantum_pos [of x] by (simp add: to_double_def field_simps)
  then have "\<bar>to_double x - x\<bar>
      = \<bar>of_int (round_half_even (x / quantum x)) - x / quantum x\<bar> * quantum x"
    using quantum_pos [of x] by (simp add: abs_mult)
  also have "\<dots> \<le> (1 / 2) * quantum x"
    using round_half_even_error [of "x / quantum x"] quantum_pos [of x]
    by (intro mult_right_mono) simp_all
  finally show ?thesis by simp
qed

text \<open>A double is rounded to itself.\<close>

lemma to_double_fixes: "is_double x \<Longrightarrow> to_double x = x"
  using quantum_pos [of x]
  by (simp add: is_double_def to_double_def round_half_even_def)

lemma to_double_0: "to_double 0 = 0"
  by (simp add: to_double_def round_half_even_def)

lemma is_double_0: "is_double 0"
  by (simp add: is_double_def)

lemma to_double_nonneg: "0 \<le> x \<Longrightarrow> 0 \<le> to_double x"
proof -
  assume "0 \<le> x"
  then have "0 \<le> x / quantum x"
    using quantum_pos [of x] by simp
  then have "0 \<le> \<lfloor>x / quantum x\<rfloor>" by simp
  then have "0 \<le> round_half_even (x / quantum x)"
    using round_half_even_floor [of "x / quantum x"] by linarith
  then show ?thesis
    using quantum_pos [of x] by (simp add: to_double_def)
qed

lemma of_int_less_2p53: "k < 2 ^ 53 \<Longrightarrow> (of_int k :: real) < 2 ^ 53"
proof -
  assume "k < 2 ^ 53"
  then have "(of_int k :: real) < of_int (2 ^ 53)"
    by (simp only: of_int_less_iff)
  then show ?thesis by simp
qed

lemma powi_shift: "(2::real) ^ n * 2 powi e = 2 powi (e + int n)"
proof -
  have "(2::real) powi (e + int n) = 2 powi e * 2 powi (int n)"
    by (rule power_int_add) simp
  then show ?thesis by simp
qed

lemma powi_quotient: "m \<le> e \<Longrightarrow> (2::real) powi e / 2 powi m = 2 ^ nat (e - m)"
proof -
  assume "m \<le> e"
  have "(2::real) powi (e - m) = 2 powi e / 2 powi m"
    by (rule power_int_diff) simp
  moreover have "(2::real) powi (e - m) = 2 ^ nat (e - m)"
    using \<open>m \<le> e\<close> by (simp add: power_int_nonneg_exp)
  ultimately show ?thesis by simp
qed

text \<open>The reals \<open>k * 2 ^ e\<close> with \<open>0 \<le> k \<le> 2 ^ 53\<close> and \<open>- 1074 \<le> e\<close> are doubles.\<close>

lemma is_double_scaled_less:
  assumes "0 \<le> k" and "k < 2 ^ 53" and "- 1074 \<le> e"
  shows "is_double (of_int k * 2 powi e)"
proof (cases "k = 0")
  case True
  then show ?thesis by (simp add: is_double_0)
next
  case False
  define r :: real where "r = of_int k * 2 powi e"
  have kpos: "0 < k" using assms(1) False by simp
  have rpos: "0 < r" unfolding r_def using kpos by simp
  have "r < 2 ^ 53 * 2 powi e"
    unfolding r_def using of_int_less_2p53 [OF assms(2)]
    by (intro mult_strict_right_mono) simp_all
  then have "r < 2 powi (e + 53)"
    using powi_shift [of 53 e] by simp
  then have b: "binade r < e + 53"
    using rpos by (rule binade_less [rotated])
  define m where "m = max (binade r) (- 1022) - 52"
  have me: "m \<le> e" unfolding m_def using b assms(3) by simp
  have q: "quantum r = 2 powi m"
    unfolding m_def using rpos by (rule quantum_of_pos)
  have "r / quantum r = r / 2 powi m"
    by (simp only: q)
  also have "\<dots> = of_int k * (2 powi e / 2 powi m)"
    by (simp add: r_def)
  also have "\<dots> = of_int (k * 2 ^ nat (e - m))"
    using powi_quotient [OF me] by simp
  finally have "r / quantum r = of_int (k * 2 ^ nat (e - m))" .
  then have "r / quantum r = of_int \<lfloor>r / quantum r\<rfloor>"
    by (simp only: floor_of_int)
  then show ?thesis
    unfolding is_double_def r_def .
qed

lemma is_double_scaled:
  assumes "0 \<le> k" and "k \<le> 2 ^ 53" and "- 1074 \<le> e"
  shows "is_double (of_int k * 2 powi e)"
proof (cases "k = 2 ^ 53")
  case False
  with assms(2) have "k < 2 ^ 53" by simp
  with assms(1,3) show ?thesis by (intro is_double_scaled_less)
next
  case True
  have "(2::real) ^ 53 * 2 powi e = 2 ^ 52 * 2 powi (e + 1)"
    by (simp add: power_int_add)
  then have "of_int k * 2 powi e = of_int (2 ^ 52) * (2::real) powi (e + 1)"
    using True by simp
  moreover have "is_double (of_int (2 ^ 52) * 2 powi (e + 1))"
    using assms(3) by (intro is_double_scaled_less) simp_all
  ultimately show ?thesis by simp
qed

text \<open>The result of rounding is a double.\<close>

lemma is_double_to_double:
  assumes "0 \<le> x"
  shows "is_double (to_double x)"
proof (cases "x = 0")
  case True
  then show ?thesis by (simp add: to_double_0 is_double_0)
next
  case False
  with assms have xpos: "0 < x" by simp
  define m where "m = max (binade x) (- 1022) - 52"
  have q: "quantum x = 2 powi m"
    unfolding m_def using xpos by (rule quantum_of_pos)
  have m_lo: "- 1074 \<le> m" and bm: "binade x + 1 \<le> m + 53"
    unfolding m_def by simp_all
  have "x < 2 powi (binade x + 1)"
    using binade_spec [OF xpos] by simp
  also have "\<dots> \<le> 2 powi (m + 53)"
    using bm by (intro power_int_increasing) simp_all
  also have "\<dots> = 2 ^ 53 * 2 powi m"
    using powi_shift [of 53 m] by simp
  finally have "x / 2 powi m < 2 ^ 53"
    by (simp add: pos_divide_less_eq)
  then have "x / 2 powi m < of_int (2 ^ 53)"
    by simp
  then have fl: "\<lfloor>x / 2 powi m\<rfloor> < 2 ^ 53"
    by (simp only: floor_less_iff)
  have "0 \<le> x / 2 powi m"
    using xpos by simp
  then have fl0: "0 \<le> \<lfloor>x / 2 powi m\<rfloor>"
    by simp
  define k where "k = round_half_even (x / 2 powi m)"
  have k0: "0 \<le> k"
    unfolding k_def using fl0 round_half_even_floor [of "x / 2 powi m"] by linarith
  have k1: "k \<le> 2 ^ 53"
    unfolding k_def using fl round_half_even_le [of "x / 2 powi m"] by linarith
  have "to_double x = of_int k * 2 powi m"
    unfolding k_def by (simp only: to_double_def q)
  then show ?thesis
    using is_double_scaled [OF k0 k1 m_lo] by simp
qed

text \<open>Rounding does not go below a double that the exact value has reached.\<close>

lemma to_double_ge:
  assumes "is_double s" and "0 \<le> s" and "s \<le> y"
  shows "s \<le> to_double y"
proof (cases "s = 0")
  case True
  then show ?thesis using to_double_nonneg [of y] assms(3) by simp
next
  case False
  with assms(2) have spos: "0 < s" by simp
  with assms(3) have ypos: "0 < y" by simp
  define ms where "ms = max (binade s) (- 1022) - 52"
  define my where "my = max (binade y) (- 1022) - 52"
  have qs: "quantum s = 2 powi ms"
    unfolding ms_def using spos by (rule quantum_of_pos)
  have qy: "quantum y = 2 powi my"
    unfolding my_def using ypos by (rule quantum_of_pos)
  have bsy: "binade s \<le> binade y"
    using spos assms(3) by (rule binade_mono)
  then have msy: "ms \<le> my"
    unfolding ms_def my_def by simp
  have fl: "of_int \<lfloor>y / 2 powi my\<rfloor> * 2 powi my \<le> to_double y"
  proof -
    have "(of_int \<lfloor>y / 2 powi my\<rfloor> :: real) \<le> of_int (round_half_even (y / 2 powi my))"
      using round_half_even_floor [of "y / 2 powi my"] by (simp only: of_int_le_iff)
    then have "of_int \<lfloor>y / 2 powi my\<rfloor> * (2::real) powi my
        \<le> of_int (round_half_even (y / 2 powi my)) * 2 powi my"
      by (intro mult_right_mono) simp_all
    then show ?thesis
      by (simp only: to_double_def qy)
  qed
  show ?thesis
  proof (cases "ms = my")
    case True
    have "s / 2 powi my = of_int \<lfloor>s / 2 powi my\<rfloor>"
      using assms(1) unfolding is_double_def qs True .
    moreover have "s / 2 powi my \<le> y / 2 powi my"
      using assms(3) by (simp add: divide_right_mono)
    then have "\<lfloor>s / 2 powi my\<rfloor> \<le> \<lfloor>y / 2 powi my\<rfloor>"
      by (rule floor_mono)
    then have "(of_int \<lfloor>s / 2 powi my\<rfloor> :: real) \<le> of_int \<lfloor>y / 2 powi my\<rfloor>"
      by (simp only: of_int_le_iff)
    ultimately have "s / 2 powi my \<le> of_int \<lfloor>y / 2 powi my\<rfloor>"
      by simp
    then have "s \<le> of_int \<lfloor>y / 2 powi my\<rfloor> * 2 powi my"
      by (simp add: pos_divide_le_eq)
    with fl show ?thesis by linarith
  next
    case False
    with msy have "ms < my" by simp
    then have by1: "- 1022 < binade y" and by2: "binade s < binade y"
      unfolding ms_def my_def by linarith+
    have my_eq: "my = binade y - 52"
      unfolding my_def using by1 by simp
    have pw: "(2::real) powi binade y = 2 ^ 52 * 2 powi my"
      using powi_shift [of 52 my] my_eq by simp
    moreover have "2 powi binade y \<le> y"
      using binade_spec [OF ypos] by simp
    ultimately have "2 ^ 52 * 2 powi my \<le> y"
      by simp
    then have "(2::real) ^ 52 \<le> y / 2 powi my"
      by (simp add: pos_le_divide_eq)
    then have "of_int (2 ^ 52) \<le> y / 2 powi my"
      by simp
    then have "2 ^ 52 \<le> \<lfloor>y / 2 powi my\<rfloor>"
      by (simp only: le_floor_iff)
    then have "(of_int (2 ^ 52) :: real) \<le> of_int \<lfloor>y / 2 powi my\<rfloor>"
      by (simp only: of_int_le_iff)
    then have "of_int (2 ^ 52) * (2::real) powi my \<le> of_int \<lfloor>y / 2 powi my\<rfloor> * 2 powi my"
      by (intro mult_right_mono) simp_all
    then have "(2::real) powi binade y \<le> of_int \<lfloor>y / 2 powi my\<rfloor> * 2 powi my"
      using pw by simp
    moreover have "s < 2 powi (binade s + 1)"
      using binade_spec [OF spos] by simp
    moreover have "(2::real) powi (binade s + 1) \<le> 2 powi binade y"
      using by2 by (intro power_int_increasing) simp_all
    ultimately show ?thesis using fl by linarith
  qed
qed

text \<open>
  The rounding error relative to the exact value is at most \<open>2 ^ - 53\<close>, the unit
  roundoff, and at most \<open>2 ^ - 1075\<close> below the normal range.
\<close>

lemma to_double_relative_error:
  "\<bar>to_double x - x\<bar> \<le> max (\<bar>x\<bar> * 2 powi (- 53)) (2 powi (- 1075))"
proof (cases "x = 0")
  case True
  then show ?thesis by (simp add: to_double_0)
next
  case False
  then have apos: "0 < \<bar>x\<bar>" by simp
  have half: "(2::real) powi (e - 53) = 2 powi (e - 52) / 2" for e
    by (simp add: power_int_diff)
  have "quantum x / 2 \<le> max (\<bar>x\<bar> * 2 powi (- 53)) (2 powi (- 1075))"
  proof (cases "- 1022 \<le> binade \<bar>x\<bar>")
    case True
    then have "quantum x = 2 powi (binade \<bar>x\<bar> - 52)"
      by (simp add: quantum_def)
    then have "quantum x / 2 = 2 powi (binade \<bar>x\<bar> - 53)"
      by (simp add: half)
    also have "\<dots> = 2 powi binade \<bar>x\<bar> * 2 powi (- 53)"
      using power_int_add [of "2::real" "binade \<bar>x\<bar>" "- 53"] by simp
    also have "\<dots> \<le> \<bar>x\<bar> * 2 powi (- 53)"
      using binade_spec [OF apos] by (intro mult_right_mono) simp_all
    finally show ?thesis by simp
  next
    case False
    then have "quantum x = 2 powi (- 1074)"
      by (simp add: quantum_def)
    then have "quantum x / 2 = 2 powi (- 1075)"
      using half [of "- 1022"] by simp
    then show ?thesis by simp
  qed
  with to_double_error [of x] show ?thesis by linarith
qed

section \<open>Properties of the playback path\<close>

lemma duration_nonneg: "0 \<le> duration b"
  by (simp add: duration_def Number_divide_def to_double_nonneg)

lemma length_back_to_back: "length (back_to_back e cs) = length cs"
  by (induction e cs rule: back_to_back.induct) simp_all

lemma map_snd_back_to_back: "map snd (back_to_back e cs) = map snd cs"
  by (induction e cs rule: back_to_back.induct) simp_all

lemma back_to_back_first:
  "cs \<noteq> [] \<Longrightarrow> fst (back_to_back e cs ! 0) = max e (fst (cs ! 0))"
  by (cases cs) auto

lemma back_to_back_next:
  "Suc i < length cs \<Longrightarrow>
   fst (back_to_back e cs ! Suc i)
     = max (Number_add (fst (back_to_back e cs ! i)) (snd (back_to_back e cs ! i)))
         (fst (cs ! Suc i))"
proof (induction e cs arbitrary: i rule: back_to_back.induct)
  case (1 e)
  then show ?case by simp
next
  case (2 e now d cs)
  show ?case
  proof (cases i)
    case 0
    with "2.prems" show ?thesis by (cases cs) auto
  next
    case (Suc j)
    with "2.prems" "2.IH" [of j] show ?thesis by simp
  qed
qed

text \<open>
  The end computed for a chunk is not before its start, when the start is a double that
  is not negative; so the starts of a back-to-back schedule never decrease.
\<close>

lemma Number_add_ge:
  assumes "is_double s" and "0 \<le> s" and "0 \<le> d"
  shows "s \<le> Number_add s d"
  unfolding Number_add_def using assms by (intro to_double_ge) simp_all

lemma back_to_back_mono:
  assumes "0 \<le> e" and "is_double e" and "sorted (map fst cs)"
    and "\<forall>c \<in> set cs. 0 \<le> snd c" and "Suc i < length cs"
  shows "fst (back_to_back e cs ! i) \<le> fst (back_to_back e cs ! Suc i)"
  using assms
proof (induction e cs arbitrary: i rule: back_to_back.induct)
  case (1 e)
  then show ?case by simp
next
  case (2 e now d cs)
  define e' where "e' = Number_add (max e now) d"
  have d0: "0 \<le> d"
    using "2.prems"(4) by simp
  have e'0: "0 \<le> e'"
    unfolding e'_def Number_add_def using "2.prems"(1) d0 by (intro to_double_nonneg) simp
  have e'd: "is_double e'"
    unfolding e'_def Number_add_def using "2.prems"(1) d0 by (intro is_double_to_double) simp
  show ?case
  proof (cases i)
    case 0
    obtain now' d' cs' where cs: "cs = (now', d') # cs'"
      using "2.prems"(5) 0 by (cases cs) auto
    have le: "now \<le> now'"
      using "2.prems"(3) cs by simp
    have "max e now \<le> max e' now'"
    proof (cases "e \<le> now")
      case True
      then show ?thesis using le by simp
    next
      case False
      then have "max e now = e" by simp
      then have "e \<le> e'"
        unfolding e'_def using Number_add_ge [OF "2.prems"(2,1) d0] by simp
      with False show ?thesis by simp
    qed
    then show ?thesis
      using 0 cs by (simp add: e'_def)
  next
    case (Suc j)
    have "fst (back_to_back e' cs ! j) \<le> fst (back_to_back e' cs ! Suc j)"
      unfolding e'_def
      using "2.prems"(3,4,5) Suc e'0 e'd
      by (intro "2.IH") (simp_all add: e'_def)
    then show ?thesis
      using Suc by (simp add: e'_def)
  qed
qed

lemma scheduled_append: "scheduled (cs @ ds) = scheduled cs @ scheduled ds"
  by (induction cs rule: scheduled.induct) simp_all

text \<open>One message, seen from the schedule.\<close>

lemma schedule_audio_chunk:
  assumes "chunk_of decode decodeAudioData ctx msg = Some audioBuffer"
  shows "schedule_audio decode decodeAudioData ctx now msg st =
    (None, st\<lparr> created := Suc (created st),
               calls := calls st @ [start \<lparr> node = created st, buffer = audioBuffer \<rparr>
                                      (max (nextStartTime st) now)],
               nextStartTime := Number_add (max (nextStartTime st) now) (duration audioBuffer),
               sources := Set_add \<lparr> node = created st, buffer = audioBuffer \<rparr> (sources st) \<rparr>)"
  using assms
  by (auto simp: chunk_of_def schedule_audio_def schedule_audio_begin_def
           schedule_audio_resume_def Let_def
           split: sum.splits option.splits if_splits)

lemma schedule_audio_no_chunk:
  assumes "chunk_of decode decodeAudioData ctx msg = None"
  shows "calls (snd (schedule_audio decode decodeAudioData ctx now msg st)) = calls st
    \<and> sources (snd (schedule_audio decode decodeAudioData ctx now msg st)) = sources st
    \<and> nextStartTime st \<le> nextStartTime (snd (schedule_audio decode decodeAudioData ctx now msg st))
    \<and> nextStartTime (snd (schedule_audio decode decodeAudioData ctx now msg st))
         \<le> max (nextStartTime st) now"
  using assms
  by (auto simp: chunk_of_def schedule_audio_def schedule_audio_begin_def Let_def
           split: sum.splits option.splits if_splits)

lemma handle_event_Message_free:
  assumes "\<not> is_interrupted msg"
  shows "fst (handle_event decode decodeAudioData ctx callback (st, app) (Message now msg))
    = snd (schedule_audio decode decodeAudioData ctx now msg st)"
  using assms
  by (simp add: onmessage_def handle_interrupted_def split: prod.splits option.splits)

lemma run_Cons:
  "run decode decodeAudioData ctx callback s (ev # events)
     = run decode decodeAudioData ctx callback
         (handle_event decode decodeAudioData ctx callback s ev) events"
  by (simp add: run_def)

lemma run_scheduled:
  assumes "interruption_free events"
    and "sorted (c0 # clock events)"
    and "e \<le> nextStartTime st"
    and "nextStartTime st \<le> max e c0"
  shows "scheduled (calls (fst (run decode decodeAudioData ctx callback (st, app) events)))
    = scheduled (calls st) @ back_to_back e (chunks decode decodeAudioData ctx events)"
  using assms
proof (induction events arbitrary: st app e c0)
  case Nil
  then show ?case by (simp add: run_def)
next
  case (Cons ev events)
  show ?case
  proof (cases ev)
    case (Ended source)
    have "handle_event decode decodeAudioData ctx callback (st, app) ev = (ended source st, app)"
      using Ended by simp
    moreover have "scheduled (calls (fst (run decode decodeAudioData ctx callback (ended source st, app) events)))
      = scheduled (calls (ended source st)) @ back_to_back e (chunks decode decodeAudioData ctx events)"
      using Cons.prems Ended by (intro Cons.IH [where ?c0.0 = c0]) (simp_all add: ended_def)
    ultimately show ?thesis
      using Ended by (simp add: run_Cons ended_def)
  next
    case (Message now msg)
    have free: "\<not> is_interrupted msg" and free': "interruption_free events"
      using Cons.prems(1) Message by simp_all
    have c0: "c0 \<le> now" and srt: "sorted (now # clock events)"
      using Cons.prems(2) Message by simp_all
    obtain st' app' where step:
      "handle_event decode decodeAudioData ctx callback (st, app) ev = (st', app')"
      by (cases "handle_event decode decodeAudioData ctx callback (st, app) ev")
    have st': "st' = snd (schedule_audio decode decodeAudioData ctx now msg st)"
      using handle_event_Message_free [OF free, of decode decodeAudioData ctx callback st app now]
        step Message by simp
    show ?thesis
    proof (cases "chunk_of decode decodeAudioData ctx msg")
      case None
      note nc = schedule_audio_no_chunk [OF None, of now st]
      have lo: "e \<le> nextStartTime st'" and hi: "nextStartTime st' \<le> max e now"
        using nc Cons.prems(3,4) c0 st' by auto
      have "scheduled (calls (fst (run decode decodeAudioData ctx callback (st', app') events)))
        = scheduled (calls st') @ back_to_back e (chunks decode decodeAudioData ctx events)"
        by (rule Cons.IH [OF free' srt lo hi])
      then show ?thesis
        using step nc st' None Message by (simp add: run_Cons)
    next
      case (Some audioBuffer)
      note ch = schedule_audio_chunk [OF Some, of now st]
      have mx: "max (nextStartTime st) now = max e now"
        using Cons.prems(3,4) c0 by auto
      have nst: "nextStartTime st' = Number_add (max e now) (duration audioBuffer)"
        using ch st' mx by simp
      have cl: "scheduled (calls st')
        = scheduled (calls st) @ [(max e now, duration audioBuffer)]"
        using ch st' mx by (simp add: scheduled_append)
      have "scheduled (calls (fst (run decode decodeAudioData ctx callback (st', app') events)))
        = scheduled (calls st')
          @ back_to_back (Number_add (max e now) (duration audioBuffer))
              (chunks decode decodeAudioData ctx events)"
        by (rule Cons.IH [OF free' srt]) (simp_all add: nst)
      then show ?thesis
        using step cl Some Message by (simp add: run_Cons)
    qed
  qed
qed

lemma chunks_nonneg: "(now, d) \<in> set (chunks decode decodeAudioData ctx events) \<Longrightarrow> 0 \<le> d"
  by (induction decode decodeAudioData ctx events rule: chunks.induct)
     (auto simp: duration_nonneg split: option.splits)

lemma chunks_clock:
  "fst ` set (chunks decode decodeAudioData ctx events) \<subseteq> set (clock events)"
  by (induction decode decodeAudioData ctx events rule: chunks.induct)
     (auto split: option.splits)

lemma chunks_sorted:
  "sorted (clock events) \<Longrightarrow> sorted (map fst (chunks decode decodeAudioData ctx events))"
proof (induction decode decodeAudioData ctx events rule: chunks.induct)
  case (2 decode decodeAudioData ctx now msg es)
  have "now \<le> t" if "t \<in> fst ` set (chunks decode decodeAudioData ctx es)" for t
    using that chunks_clock [of decode decodeAudioData ctx es] "2.prems" by auto
  with 2 show ?case
    by (auto split: option.splits)
qed simp_all

lemma sorted_hd_clock: "sorted ts \<Longrightarrow> sorted ((case ts of [] \<Rightarrow> e | t # _ \<Rightarrow> t) # ts)"
  by (cases ts) auto

lemma handle_event_chunk:
  assumes "\<not> is_interrupted msg" and "chunk_of decode decodeAudioData ctx msg = Some audioBuffer"
  shows "nextStartTime (fst (handle_event decode decodeAudioData ctx callback (s, a) (Message now msg)))
      = Number_add (max (nextStartTime s) now) (duration audioBuffer)"
    and "calls (fst (handle_event decode decodeAudioData ctx callback (s, a) (Message now msg)))
      = calls s @ [start \<lparr> node = created s, buffer = audioBuffer \<rparr> (max (nextStartTime s) now)]"
  using handle_event_Message_free [OF assms(1), of decode decodeAudioData ctx callback s a now]
    schedule_audio_chunk [OF assms(2), of now s]
  by simp_all

subsection \<open>Handlers suspended at line 79\<close>

lemma spaced_mono: "spaced cs e \<Longrightarrow> e \<le> e' \<Longrightarrow> spaced cs e'"
  by (induction cs e rule: spaced.induct) simp_all

lemma spaced_snoc: "spaced cs e \<Longrightarrow> spaced (cs @ [(e, d)]) (Number_add e d)"
  by (induction cs e rule: spaced.induct) simp_all

lemma schedule_audio_begin_spaced:
  assumes "spaced (scheduled (calls st)) (nextStartTime st)"
  shows "spaced (scheduled (calls (snd (schedule_audio_begin decode decodeAudioData ctx now msg st))))
           (nextStartTime (snd (schedule_audio_begin decode decodeAudioData ctx now msg st)))"
proof -
  let ?st1 = "snd (schedule_audio_begin decode decodeAudioData ctx now msg st)"
  have "calls ?st1 = calls st" and "nextStartTime st \<le> nextStartTime ?st1"
    by (auto simp: schedule_audio_begin_def Let_def split: sum.splits option.splits)
  with assms show ?thesis
    by (simp add: spaced_mono)
qed

lemma schedule_audio_resume_spaced:
  assumes "spaced (scheduled (calls st)) (nextStartTime st)"
  shows "spaced (scheduled (calls (schedule_audio_resume audioBuffer st)))
           (nextStartTime (schedule_audio_resume audioBuffer st))"
  using spaced_snoc [OF assms, of "duration audioBuffer"]
  by (simp add: schedule_audio_resume_def Let_def scheduled_append)

lemma set_remove_nth: "set (take k xs @ drop (Suc k) xs) \<subseteq> set xs"
  using set_take_subset [of k xs] set_drop_subset [of "Suc k" xs] by auto

lemma handle_async_event_spaced:
  assumes "spaced (scheduled (calls (conv s))) (nextStartTime (conv s))"
    and "\<forall>w \<in> set (waiting s). \<not> is_interrupted (fst w)"
    and "async_interruption_free [ev]"
  shows "spaced (scheduled (calls (conv (handle_async_event decode decodeAudioData ctx callback s ev))))
           (nextStartTime (conv (handle_async_event decode decodeAudioData ctx callback s ev)))
    \<and> (\<forall>w \<in> set (waiting (handle_async_event decode decodeAudioData ctx callback s ev)).
          \<not> is_interrupted (fst w))"
proof (cases ev)
  case (Arrives now msg)
  then have free: "\<not> is_interrupted msg"
    using assms(3) by simp
  obtain r st1 where b: "schedule_audio_begin decode decodeAudioData ctx now msg (conv s) = (r, st1)"
    by (cases "schedule_audio_begin decode decodeAudioData ctx now msg (conv s)")
  have sp: "spaced (scheduled (calls st1)) (nextStartTime st1)"
    using schedule_audio_begin_spaced [OF assms(1), of decode decodeAudioData ctx now msg] b
    by simp
  show ?thesis
    using Arrives b sp free assms(2)
    by (cases r) (simp_all add: handle_interrupted_def)
next
  case (Settles k)
  show ?thesis
  proof (cases "k < length (waiting s)")
    case False
    with Settles assms(1,2) show ?thesis by simp
  next
    case True
    obtain msg p where w: "waiting s ! k = (msg, p)"
      by (cases "waiting s ! k")
    have "(msg, p) \<in> set (waiting s)"
      using True w by (metis nth_mem)
    then have free: "\<not> is_interrupted msg"
      using assms(2) by auto
    have rest: "\<forall>w \<in> set (take k (waiting s) @ drop (Suc k) (waiting s)). \<not> is_interrupted (fst w)"
      using assms(2) set_remove_nth [of k "waiting s"] by blast
    show ?thesis
    proof (cases p)
      case (Inl m)
      with Settles True w assms(1) rest show ?thesis by simp
    next
      case (Inr audioBuffer)
      with Settles True w rest free schedule_audio_resume_spaced [OF assms(1), of audioBuffer]
      show ?thesis by (simp add: handle_interrupted_def)
    qed
  qed
next
  case (Finishes source)
  with assms(1,2) show ?thesis by (simp add: ended_def)
qed

text \<open>
  However the handlers that wait at line 79 are interleaved with other events, as long
  as no message carries the interruption signal: no source is started before the end
  computed for the source started before it.
\<close>

lemma run_async_spaced:
  assumes "async_interruption_free events"
    and "spaced (scheduled (calls (conv s))) (nextStartTime (conv s))"
    and "\<forall>w \<in> set (waiting s). \<not> is_interrupted (fst w)"
  shows "spaced (scheduled (calls (conv (run_async decode decodeAudioData ctx callback s events))))
           (nextStartTime (conv (run_async decode decodeAudioData ctx callback s events)))"
  using assms
proof (induction events arbitrary: s)
  case Nil
  then show ?case by (simp add: run_async_def)
next
  case (Cons ev events)
  have one: "async_interruption_free [ev]" and rest: "async_interruption_free events"
    using Cons.prems(1) by (cases ev; simp)+
  note step = handle_async_event_spaced [OF Cons.prems(2,3) one,
      of decode decodeAudioData ctx callback]
  have "spaced (scheduled (calls (conv (run_async decode decodeAudioData ctx callback
            (handle_async_event decode decodeAudioData ctx callback s ev) events))))
          (nextStartTime (conv (run_async decode decodeAudioData ctx callback
            (handle_async_event decode decodeAudioData ctx callback s ev) events)))"
    using step rest by (intro Cons.IH) simp_all
  then show ?case
    by (simp add: run_async_def)
qed

text \<open>
  When every promise settles before the next event is handled, the suspended
  conversation does what \<open>handle_event\<close> describes.
\<close>

lemma handle_async_event_settled_at_once:
  assumes "waiting s = []"
  shows "let s1 = handle_async_event decode decodeAudioData ctx callback s (Arrives now msg);
             s2 = (if waiting s1 = [] then s1
                   else handle_async_event decode decodeAudioData ctx callback s1 (Settles 0))
         in (conv s2, owner s2)
              = handle_event decode decodeAudioData ctx callback (conv s, owner s) (Message now msg)
          \<and> waiting s2 = []"
proof -
  obtain r st1 where b: "schedule_audio_begin decode decodeAudioData ctx now msg (conv s) = (r, st1)"
    by (cases "schedule_audio_begin decode decodeAudioData ctx now msg (conv s)")
  show ?thesis
  proof (cases r)
    case (Raised e)
    with b assms show ?thesis
      by (simp add: Let_def onmessage_def schedule_audio_def)
  next
    case Skipped
    with b assms show ?thesis
      by (simp add: Let_def onmessage_def schedule_audio_def)
  next
    case (Awaiting p)
    with b assms show ?thesis
      by (cases p) (simp_all add: Let_def onmessage_def schedule_audio_def)
  qed
qed

subsection \<open>The schedule of an uninterrupted run\<close>

text \<open>
  A buffer of 2400 frames at 24000 Hz lasts the double nearest to a tenth of a second,
  and three such durations add up, as doubles, to more than their exact sum.
\<close>

lemma duration_tenth:
  "duration \<lparr> frames = 2400, bufferRate = 24000 \<rparr> = 3602879701896397 / 36028797018963968"
  by (simp add: duration_def Number_divide_def to_double_def quantum_def binade_def
        binade_up.simps binade_down.simps round_half_even_def)

lemma Number_add_tenths:
  "Number_add 0 (3602879701896397 / 36028797018963968) = 3602879701896397 / 36028797018963968"
  "Number_add (3602879701896397 / 36028797018963968) (3602879701896397 / 36028797018963968)
     = 3602879701896397 / 18014398509481984"
  "Number_add (3602879701896397 / 18014398509481984) (3602879701896397 / 36028797018963968)
     = 1351079888211149 / 4503599627370496"
  by (simp_all add: Number_add_def to_double_def quantum_def binade_def
        binade_up.simps binade_down.simps round_half_even_def)

lemma chunk_of_AAAA:
  "chunk_of (\<lambda>s. Inr []) (\<lambda>bytes ctx rate n. Inr \<lparr> frames = k, bufferRate = rate \<rparr>) 0
     (LiveServerMessage (Some \<lparr> modelTurn = Some (Content (Some [Part (Some \<lparr> data = Some (lit ''AAAA''), mimeType = None \<rparr>)])),
        interrupted = None, inputTranscription = None, outputTranscription = None,
        turnComplete = None \<rparr>))
   = Some \<lparr> frames = k, bufferRate = 24000 \<rparr>"
  by (simp add: chunk_of_def base64Audio_of_def lit_def OUTPUT_SAMPLE_RATE_def)

text \<open>
  Claim C1 says that \<open>nextStartTime\<close> advances by exactly the duration of the decoded
  buffer, so that consecutive intervals never gap while the previous buffer is pending.
  Line 87 adds doubles. Four chunks of 2400 frames arrive while the clock reads \<open>0\<close>:
  they are started at \<open>0\<close>, \<open>0.1\<close>, \<open>0.2\<close> and \<open>0.30000000000000004\<close>, each lasting the
  double \<open>0.1\<close>, and the fourth start is after the end of the third interval.
\<close>

theorem playback_rounding_counterexample:
  "scheduled (calls (fst (run (\<lambda>s. Inr [])
      (\<lambda>bytes ctx rate n. Inr \<lparr> frames = 2400, bufferRate = rate \<rparr>) 0
      (\<lambda>i o' t a. a) (initial_conversation, ())
      [Message 0 (LiveServerMessage (Some \<lparr> modelTurn = Some (Content (Some [Part (Some \<lparr> data = Some (lit ''AAAA''), mimeType = None \<rparr>)])),
          interrupted = None, inputTranscription = None, outputTranscription = None,
          turnComplete = None \<rparr>)),
       Message 0 (LiveServerMessage (Some \<lparr> modelTurn = Some (Content (Some [Part (Some \<lparr> data = Some (lit ''AAAA''), mimeType = None \<rparr>)])),
          interrupted = None, inputTranscription = None, outputTranscription = None,
          turnComplete = None \<rparr>)),
       Message 0 (LiveServerMessage (Some \<lparr> modelTurn = Some (Content (Some [Part (Some \<lparr> data = Some (lit ''AAAA''), mimeType = None \<rparr>)])),
          interrupted = None, inputTranscription = None, outputTranscription = None,
          turnComplete = None \<rparr>)),
       Message 0 (LiveServerMessage (Some \<lparr> modelTurn = Some (Content (Some [Part (Some \<lparr> data = Some (lit ''AAAA''), mimeType = None \<rparr>)])),
          interrupted = None, inputTranscription = None, outputTranscription = None,
          turnComplete = None \<rparr>))])))
     = [(0, 3602879701896397 / 36028797018963968),
        (3602879701896397 / 36028797018963968, 3602879701896397 / 36028797018963968),
        (3602879701896397 / 18014398509481984, 3602879701896397 / 36028797018963968),
        (1351079888211149 / 4503599627370496, 3602879701896397 / 36028797018963968)]
   \<and> (3602879701896397 / 18014398509481984 + 3602879701896397 / 36028797018963968 :: real)
       < 1351079888211149 / 4503599627370496"
proof -
  let ?m = "LiveServerMessage (Some \<lparr> modelTurn = Some (Content (Some [Part (Some \<lparr> data = Some (lit ''AAAA''), mimeType = None \<rparr>)])),
          interrupted = None, inputTranscription = None, outputTranscription = None,
          turnComplete = None \<rparr>)"
  let ?evs = "[Message 0 ?m, Message 0 ?m, Message 0 ?m, Message 0 ?m]"
  let ?decode = "\<lambda>s :: jsstring. Inr [] :: jsstring + 8 word list"
  let ?dad = "\<lambda>(bytes :: 8 word list) (ctx :: nat) (rate :: nat) (n :: nat).
                Inr \<lparr> frames = 2400, bufferRate = rate \<rparr> :: jsstring + AudioBuffer"
  have free: "interruption_free ?evs"
    by (simp add: is_interrupted_def)
  have srt: "sorted (0 # clock ?evs)"
    by simp
  have C: "chunks ?decode ?dad 0 ?evs
      = [(0, 3602879701896397 / 36028797018963968), (0, 3602879701896397 / 36028797018963968),
         (0, 3602879701896397 / 36028797018963968), (0, 3602879701896397 / 36028797018963968)]"
    by (simp add: chunk_of_AAAA duration_tenth)
  have "scheduled (calls (fst (run ?decode ?dad 0 (\<lambda>i o' t a. a) (initial_conversation, ()) ?evs)))
      = scheduled (calls initial_conversation) @ back_to_back 0 (chunks ?decode ?dad 0 ?evs)"
    by (rule run_scheduled [OF free srt]) (simp_all add: initial_conversation_def)
  also have "\<dots> = [(0, 3602879701896397 / 36028797018963968),
        (3602879701896397 / 36028797018963968, 3602879701896397 / 36028797018963968),
        (3602879701896397 / 18014398509481984, 3602879701896397 / 36028797018963968),
        (1351079888211149 / 4503599627370496, 3602879701896397 / 36028797018963968)]"
    unfolding C by (simp add: initial_conversation_def Number_add_tenths)
  finally show ?thesis
    by simp
qed

text \<open>
  Claim C1, amended. Take any run of the handler in which no message carries the
  interruption signal and every promise of line 79 settles before the next event, with
  a clock that does not go backwards, from a state whose \<open>nextStartTime\<close> is a double
  that is not negative, and in which no duration and no sum overflows. The playback
  intervals requested in the run are those of the back-to-back schedule of its chunks:
  every chunk starts at the later of the end computed for the chunk before it (the
  initial \<open>nextStartTime\<close> for the first) and the clock. The end computed for a chunk is
  the sum of its start and its duration rounded to a double: it is the exact end when
  that is a double, and otherwise differs from it by at most \<open>2 ^ - 53\<close> of it (or
  \<open>2 ^ - 1075\<close>). So start times never decrease, no chunk starts before the end
  computed for the chunk before it, consecutive intervals overlap by no more than that
  rounding error, and a chunk that arrives while the clock has not passed the end
  computed for the chunk before it starts exactly at that end. In every single step that
  schedules a chunk, \<open>nextStartTime\<close> becomes the rounded sum of that start time and the
  duration of the decoded buffer.
\<close>

theorem playback_back_to_back_rounded:
  assumes "interruption_free events" and "sorted (clock events)"
    and "0 \<le> nextStartTime st" and "is_double (nextStartTime st)"
    and "finite_schedule
           (back_to_back (nextStartTime st) (chunks decode decodeAudioData ctx events))"
  shows "let C = chunks decode decodeAudioData ctx events;
             S = back_to_back (nextStartTime st) C
         in scheduled (calls (fst (run decode decodeAudioData ctx callback (st, app) events)))
              = scheduled (calls st) @ S
          \<and> length S = length C
          \<and> map snd S = map snd C
          \<and> (C \<noteq> [] \<longrightarrow> fst (S ! 0) = max (nextStartTime st) (fst (C ! 0)))
          \<and> (\<forall>i. Suc i < length S \<longrightarrow>
                 fst (S ! Suc i)
                   = max (Number_add (fst (S ! i)) (snd (S ! i))) (fst (C ! Suc i))
               \<and> Number_add (fst (S ! i)) (snd (S ! i)) \<le> fst (S ! Suc i)
               \<and> fst (S ! i) \<le> fst (S ! Suc i)
               \<and> (fst (C ! Suc i) \<le> Number_add (fst (S ! i)) (snd (S ! i)) \<longrightarrow>
                    fst (S ! Suc i) = Number_add (fst (S ! i)) (snd (S ! i)))
               \<and> \<bar>Number_add (fst (S ! i)) (snd (S ! i)) - (fst (S ! i) + snd (S ! i))\<bar>
                   \<le> max (\<bar>fst (S ! i) + snd (S ! i)\<bar> * 2 powi (- 53)) (2 powi (- 1075))
               \<and> fst (S ! i) + snd (S ! i)
                   - max (\<bar>fst (S ! i) + snd (S ! i)\<bar> * 2 powi (- 53)) (2 powi (- 1075))
                   \<le> fst (S ! Suc i)
               \<and> (is_double (fst (S ! i) + snd (S ! i)) \<longrightarrow>
                    Number_add (fst (S ! i)) (snd (S ! i)) = fst (S ! i) + snd (S ! i)))
          \<and> (\<forall>now msg s a audioBuffer.
                 \<not> is_interrupted msg \<and> chunk_of decode decodeAudioData ctx msg = Some audioBuffer \<longrightarrow>
                 nextStartTime (fst (handle_event decode decodeAudioData ctx callback (s, a) (Message now msg)))
                   = Number_add (max (nextStartTime s) now) (duration audioBuffer)
               \<and> calls (fst (handle_event decode decodeAudioData ctx callback (s, a) (Message now msg)))
                   = calls s @ [start \<lparr> node = created s, buffer = audioBuffer \<rparr>
                                  (max (nextStartTime s) now)])"
proof -
  define C where "C = chunks decode decodeAudioData ctx events"
  define S where "S = back_to_back (nextStartTime st) C"
  define c0 where "c0 = (case clock events of [] \<Rightarrow> nextStartTime st | t # _ \<Rightarrow> t)"
  define err where "err = (\<lambda>x::real. max (\<bar>x\<bar> * 2 powi (- 53)) (2 powi (- 1075)))"
  have srt: "sorted (c0 # clock events)"
    unfolding c0_def using assms(2) by (rule sorted_hd_clock)
  have run: "scheduled (calls (fst (run decode decodeAudioData ctx callback (st, app) events)))
      = scheduled (calls st) @ S"
    unfolding S_def C_def by (rule run_scheduled [OF assms(1) srt]) simp_all
  have len: "length S = length C"
    by (simp add: S_def length_back_to_back)
  have durs: "map snd S = map snd C"
    by (simp add: S_def map_snd_back_to_back)
  have first: "C \<noteq> [] \<longrightarrow> fst (S ! 0) = max (nextStartTime st) (fst (C ! 0))"
    by (simp add: S_def back_to_back_first)
  have nxt: "fst (S ! Suc i) = max (Number_add (fst (S ! i)) (snd (S ! i))) (fst (C ! Suc i))"
    if "Suc i < length S" for i
    using that len unfolding S_def by (intro back_to_back_next) simp
  have nonneg: "\<forall>c \<in> set C. 0 \<le> snd c"
    using chunks_nonneg [of _ _ decode decodeAudioData ctx events]
    by (auto simp: C_def)
  have mono: "fst (S ! i) \<le> fst (S ! Suc i)" if "Suc i < length S" for i
    unfolding S_def
    using assms(3,4) nonneg that len chunks_sorted [OF assms(2), of decode decodeAudioData ctx]
    by (intro back_to_back_mono) (simp_all add: C_def)
  have error: "\<bar>Number_add s d - (s + d)\<bar> \<le> err (s + d)" for s d
    unfolding err_def Number_add_def by (rule to_double_relative_error)
  have exact: "Number_add s d = s + d" if "is_double (s + d)" for s d
    unfolding Number_add_def using that by (rule to_double_fixes)
  have consecutive:
    "fst (S ! Suc i) = max (Number_add (fst (S ! i)) (snd (S ! i))) (fst (C ! Suc i))
      \<and> Number_add (fst (S ! i)) (snd (S ! i)) \<le> fst (S ! Suc i)
      \<and> fst (S ! i) \<le> fst (S ! Suc i)
      \<and> (fst (C ! Suc i) \<le> Number_add (fst (S ! i)) (snd (S ! i)) \<longrightarrow>
           fst (S ! Suc i) = Number_add (fst (S ! i)) (snd (S ! i)))
      \<and> \<bar>Number_add (fst (S ! i)) (snd (S ! i)) - (fst (S ! i) + snd (S ! i))\<bar>
           \<le> err (fst (S ! i) + snd (S ! i))
      \<and> fst (S ! i) + snd (S ! i) - err (fst (S ! i) + snd (S ! i)) \<le> fst (S ! Suc i)
      \<and> (is_double (fst (S ! i) + snd (S ! i)) \<longrightarrow>
           Number_add (fst (S ! i)) (snd (S ! i)) = fst (S ! i) + snd (S ! i))"
    if "Suc i < length S" for i
  proof -
    note n = nxt [OF that]
    have a: "Number_add (fst (S ! i)) (snd (S ! i)) \<le> fst (S ! Suc i)"
      using n by simp
    have b: "fst (C ! Suc i) \<le> Number_add (fst (S ! i)) (snd (S ! i)) \<longrightarrow>
           fst (S ! Suc i) = Number_add (fst (S ! i)) (snd (S ! i))"
      using n by simp
    note e = error [of "fst (S ! i)" "snd (S ! i)"]
    have c: "fst (S ! i) + snd (S ! i) - err (fst (S ! i) + snd (S ! i)) \<le> fst (S ! Suc i)"
      using a e by linarith
    show ?thesis
      using n a mono [OF that] b e c exact [of "fst (S ! i)" "snd (S ! i)"] by blast
  qed
  have step: "nextStartTime (fst (handle_event decode decodeAudioData ctx callback (s, a) (Message now msg)))
        = Number_add (max (nextStartTime s) now) (duration audioBuffer)
      \<and> calls (fst (handle_event decode decodeAudioData ctx callback (s, a) (Message now msg)))
        = calls s @ [start \<lparr> node = created s, buffer = audioBuffer \<rparr> (max (nextStartTime s) now)]"
    if "\<not> is_interrupted msg \<and> chunk_of decode decodeAudioData ctx msg = Some audioBuffer"
    for now msg s a audioBuffer
    using that handle_event_chunk [of msg decode decodeAudioData ctx audioBuffer callback s a now]
    by blast
  from run len durs first consecutive step show ?thesis
    unfolding Let_def C_def [symmetric] S_def [symmetric] err_def by blast
qed

theorem playback_back_to_back_rounded_witness:
  "interruption_free
     [Message 0 (LiveServerMessage (Some \<lparr> modelTurn = Some (Content (Some [Part (Some \<lparr> data = Some (lit ''AAAA''), mimeType = None \<rparr>)])),
          interrupted = None, inputTranscription = None, outputTranscription = None,
          turnComplete = None \<rparr>)), Message (1 / 16) (LiveServerMessage (Some \<lparr> modelTurn = Some (Content (Some [Part (Some \<lparr> data = Some (lit ''AAAA''), mimeType = None \<rparr>)])),
          interrupted = None, inputTranscription = None, outputTranscription = None,
          turnComplete = None \<rparr>)), Message (1 / 2) (LiveServerMessage (Some \<lparr> modelTurn = Some (Content (Some [Part (Some \<lparr> data = Some (lit ''AAAA''), mimeType = None \<rparr>)])),
          interrupted = None, inputTranscription = None, outputTranscription = None,
          turnComplete = None \<rparr>))]
   \<and> sorted (clock [Message 0 (LiveServerMessage (Some \<lparr> modelTurn = Some (Content (Some [Part (Some \<lparr> data = Some (lit ''AAAA''), mimeType = None \<rparr>)])),
          interrupted = None, inputTranscription = None, outputTranscription = None,
          turnComplete = None \<rparr>)), Message (1 / 16) (LiveServerMessage (Some \<lparr> modelTurn = Some (Content (Some [Part (Some \<lparr> data = Some (lit ''AAAA''), mimeType = None \<rparr>)])),
          interrupted = None, inputTranscription = None, outputTranscription = None,
          turnComplete = None \<rparr>)), Message (1 / 2) (LiveServerMessage (Some \<lparr> modelTurn = Some (Content (Some [Part (Some \<lparr> data = Some (lit ''AAAA''), mimeType = None \<rparr>)])),
          interrupted = None, inputTranscription = None, outputTranscription = None,
          turnComplete = None \<rparr>))])
   \<and> 0 \<le> nextStartTime initial_conversation
   \<and> is_double (nextStartTime initial_conversation)
   \<and> finite_schedule
       [(0, 3602879701896397 / 36028797018963968),
        (3602879701896397 / 36028797018963968, 3602879701896397 / 36028797018963968),
        (1 / 2, 3602879701896397 / 36028797018963968)]
   \<and> scheduled (calls (fst (run (\<lambda>s. Inr [])
          (\<lambda>bytes ctx rate n. Inr \<lparr> frames = 2400, bufferRate = rate \<rparr>) 0
          (\<lambda>i o' t a. a) (initial_conversation, ())
          [Message 0 (LiveServerMessage (Some \<lparr> modelTurn = Some (Content (Some [Part (Some \<lparr> data = Some (lit ''AAAA''), mimeType = None \<rparr>)])),
          interrupted = None, inputTranscription = None, outputTranscription = None,
          turnComplete = None \<rparr>)), Message (1 / 16) (LiveServerMessage (Some \<lparr> modelTurn = Some (Content (Some [Part (Some \<lparr> data = Some (lit ''AAAA''), mimeType = None \<rparr>)])),
          interrupted = None, inputTranscription = None, outputTranscription = None,
          turnComplete = None \<rparr>)), Message (1 / 2) (LiveServerMessage (Some \<lparr> modelTurn = Some (Content (Some [Part (Some \<lparr> data = Some (lit ''AAAA''), mimeType = None \<rparr>)])),
          interrupted = None, inputTranscription = None, outputTranscription = None,
          turnComplete = None \<rparr>))])))
       = [(0, 3602879701896397 / 36028797018963968),
          (3602879701896397 / 36028797018963968, 3602879701896397 / 36028797018963968),
          (1 / 2, 3602879701896397 / 36028797018963968)]"
proof -
  let ?m = "LiveServerMessage (Some \<lparr> modelTurn = Some (Content (Some [Part (Some \<lparr> data = Some (lit ''AAAA''), mimeType = None \<rparr>)])),
          interrupted = None, inputTranscription = None, outputTranscription = None,
          turnComplete = None \<rparr>)"
  let ?evs = "[Message 0 ?m, Message (1 / 16) ?m, Message (1 / 2) ?m]"
  let ?decode = "\<lambda>s :: jsstring. Inr [] :: jsstring + 8 word list"
  let ?dad = "\<lambda>(bytes :: 8 word list) (ctx :: nat) (rate :: nat) (n :: nat).
                Inr \<lparr> frames = 2400, bufferRate = rate \<rparr> :: jsstring + AudioBuffer"
  let ?S = "[(0, 3602879701896397 / 36028797018963968),
          (3602879701896397 / 36028797018963968, 3602879701896397 / 36028797018963968),
          (1 / 2, 3602879701896397 / 36028797018963968)] :: (real \<times> real) list"
  have free: "interruption_free ?evs"
    by (simp add: is_interrupted_def)
  have srt: "sorted (clock ?evs)"
    by simp
  have pos: "0 \<le> nextStartTime initial_conversation"
    by (simp add: initial_conversation_def)
  have dbl: "is_double (nextStartTime initial_conversation)"
    by (simp add: initial_conversation_def is_double_0)
  have C: "chunks ?decode ?dad 0 ?evs
      = [(0, 3602879701896397 / 36028797018963968),
         (1 / 16, 3602879701896397 / 36028797018963968),
         (1 / 2, 3602879701896397 / 36028797018963968)]"
    by (simp add: chunk_of_AAAA duration_tenth)
  have S: "back_to_back (nextStartTime initial_conversation) (chunks ?decode ?dad 0 ?evs) = ?S"
    unfolding C by (simp add: initial_conversation_def Number_add_tenths)
  have fin: "finite_schedule ?S"
    by (simp add: finite_schedule_def overflows_def)
  have fin': "finite_schedule
      (back_to_back (nextStartTime initial_conversation) (chunks ?decode ?dad 0 ?evs))"
    unfolding S by (rule fin)
  have "scheduled (calls (fst (run ?decode ?dad 0 (\<lambda>i o' t a. a) (initial_conversation, ()) ?evs)))
      = scheduled (calls initial_conversation)
        @ back_to_back (nextStartTime initial_conversation) (chunks ?decode ?dad 0 ?evs)"
    using playback_back_to_back_rounded [OF free srt pos dbl fin', where callback = "\<lambda>i o' t a. a"
        and app = "()"]
    by (simp add: Let_def)
  also have "\<dots> = ?S"
    unfolding S by (simp add: initial_conversation_def)
  finally show ?thesis
    using free srt pos dbl fin by blast
qed

subsection \<open>The interruption signal\<close>

lemma onmessage_returns:
  "fst (onmessage decode decodeAudioData ctx callback now msg (st, app)) = None
   \<longleftrightarrow> fst (schedule_audio decode decodeAudioData ctx now msg st) = None"
  by (simp add: onmessage_def split: prod.splits option.splits)

lemma onmessage_interrupted:
  assumes "is_interrupted msg"
    and "fst (onmessage decode decodeAudioData ctx callback now msg (st, app)) = None"
  shows "fst (snd (onmessage decode decodeAudioData ctx callback now msg (st, app)))
    = (snd (schedule_audio decode decodeAudioData ctx now msg st))
        \<lparr> calls := calls (snd (schedule_audio decode decodeAudioData ctx now msg st))
                    @ map stop (sources (snd (schedule_audio decode decodeAudioData ctx now msg st))),
          sources := [], nextStartTime := 0 \<rparr>"
  using assms
  by (simp add: onmessage_def handle_interrupted_def split: prod.splits option.splits)

lemma schedule_audio_keeps_sources:
  "set (sources st) \<subseteq> set (sources (snd (schedule_audio decode decodeAudioData ctx now msg st)))"
  by (auto simp: schedule_audio_def schedule_audio_begin_def schedule_audio_resume_def
           Let_def Set_add_def split: sum.splits option.splits)

lemma schedule_audio_keeps_calls:
  "set (calls st) \<subseteq> set (calls (snd (schedule_audio decode decodeAudioData ctx now msg st)))"
  by (auto simp: schedule_audio_def schedule_audio_begin_def schedule_audio_resume_def
           Let_def split: sum.splits option.splits)

text \<open>
  When the audio step of the handler raises nothing, a message that carries the
  interruption signal stops every tracked source, the one created from the audio of the
  same message included, empties \<open>sources\<close> and resets \<open>nextStartTime\<close> to \<open>0\<close>.
\<close>

lemma interruption_stops_all_sources:
  assumes "is_interrupted msg"
    and "fst (onmessage decode decodeAudioData ctx callback now msg (st, app)) = None"
  shows "let st' = fst (snd (onmessage decode decodeAudioData ctx callback now msg (st, app)))
         in sources st' = [] \<and> nextStartTime st' = 0
          \<and> (\<forall>source \<in> set (sources st). stop source \<in> set (calls st'))
          \<and> (\<forall>audioBuffer. chunk_of decode decodeAudioData ctx msg = Some audioBuffer \<longrightarrow>
                stop \<lparr> node = created st, buffer = audioBuffer \<rparr> \<in> set (calls st'))
          \<and> set (calls st) \<subseteq> set (calls st')"
proof -
  let ?st1 = "snd (schedule_audio decode decodeAudioData ctx now msg st)"
  let ?st' = "fst (snd (onmessage decode decodeAudioData ctx callback now msg (st, app)))"
  have eq: "?st' = ?st1\<lparr> calls := calls ?st1 @ map stop (sources ?st1),
                         sources := [], nextStartTime := 0 \<rparr>"
    by (rule onmessage_interrupted [OF assms])
  have a: "sources ?st' = []" and b: "nextStartTime ?st' = 0"
    by (simp_all add: eq)
  have c: "stop source \<in> set (calls ?st')" if "source \<in> set (sources st)" for source
    using that schedule_audio_keeps_sources [of st decode decodeAudioData ctx now msg]
    by (auto simp: eq)
  have d: "stop \<lparr> node = created st, buffer = audioBuffer \<rparr> \<in> set (calls ?st')"
    if "chunk_of decode decodeAudioData ctx msg = Some audioBuffer" for audioBuffer
    unfolding eq schedule_audio_chunk [OF that] by (simp add: Set_add_def)
  have e: "set (calls st) \<subseteq> set (calls ?st')"
    using schedule_audio_keeps_calls [of st decode decodeAudioData ctx now msg]
    by (auto simp: eq)
  from a b c d e show ?thesis
    unfolding Let_def by blast
qed

text \<open>
  Claim C2 says this of every message that carries the interruption signal. A message
  whose model turn has no \<open>parts\<close> makes line 76 raise a \<open>TypeError\<close> before the
  interruption is looked at: with one source pending, nothing is stopped, \<open>sources\<close>
  still holds the source and \<open>nextStartTime\<close> is still \<open>3\<close>.
\<close>

theorem interruption_TypeError_skips_stop:
  "is_interrupted
     (LiveServerMessage (Some \<lparr> modelTurn = Some (Content None), interrupted = Some True,
        inputTranscription = None, outputTranscription = None, turnComplete = None \<rparr>))
   \<and> onmessage (\<lambda>s. Inr []) (\<lambda>bytes ctx rate n. Inr \<lparr> frames = 12000, bufferRate = rate \<rparr>)
       0 (\<lambda>i o' t a. a) 1
       (LiveServerMessage (Some \<lparr> modelTurn = Some (Content None), interrupted = Some True,
          inputTranscription = None, outputTranscription = None, turnComplete = None \<rparr>))
       (\<lparr> nextStartTime = 3,
          sources = [\<lparr> node = 0, buffer = \<lparr> frames = 72000, bufferRate = 24000 \<rparr> \<rparr>],
          created = 1,
          calls = [start \<lparr> node = 0, buffer = \<lparr> frames = 72000, bufferRate = 24000 \<rparr> \<rparr> 0] \<rparr>, ())
     = (Some (TypeError (lit ''Cannot read properties of undefined'')),
        \<lparr> nextStartTime = 3,
          sources = [\<lparr> node = 0, buffer = \<lparr> frames = 72000, bufferRate = 24000 \<rparr> \<rparr>],
          created = 1,
          calls = [start \<lparr> node = 0, buffer = \<lparr> frames = 72000, bufferRate = 24000 \<rparr> \<rparr> 0] \<rparr>, ())"
  by (simp add: is_interrupted_def onmessage_def schedule_audio_def schedule_audio_begin_def
        base64Audio_of_def)

section \<open>Properties of \<open>getOutputAudioContext\<close> and \<open>generateSpeech\<close>\<close>

lemma getOutputAudioContext_creates:
  assumes "case outputAudioContext st of None \<Rightarrow> True | Some r \<Rightarrow> state (contexts st r) = closed"
  shows "getOutputAudioContext st =
    (allocated st,
     st\<lparr> contexts := (contexts st)(allocated st := \<lparr> state = suspended, sampleRate = 24000 \<rparr>),
         allocated := Suc (allocated st),
         outputAudioContext := Some (allocated st) \<rparr>)"
  using assms
  by (simp add: getOutputAudioContext_def new_AudioContext_def OUTPUT_SAMPLE_RATE_def
           split: option.splits)

lemma getOutputAudioContext_reuses:
  assumes "outputAudioContext st = Some r" and "state (contexts st r) \<noteq> closed"
  shows "getOutputAudioContext st = (r, st)"
  using assms by (simp add: getOutputAudioContext_def)

lemma getOutputAudioContext_variable:
  "outputAudioContext (snd (getOutputAudioContext st)) = Some (fst (getOutputAudioContext st))"
  by (simp add: getOutputAudioContext_def new_AudioContext_def Let_def split: option.splits)

text \<open>
  Claim C8. Let a call of \<open>getOutputAudioContext\<close> return a context. In any later store
  in which the module variable is as that call left it and the returned context is not
  closed, a second call returns the same context and changes nothing. A context is created
  exactly when the variable is empty or its context is closed: then the result is a new
  object with a sample rate of 24000 and all other objects are untouched; otherwise the
  store is unchanged and the result is the context the variable holds.
\<close>

theorem getOutputAudioContext_idempotent:
  "(\<forall>st2. outputAudioContext st2 = outputAudioContext (snd (getOutputAudioContext st))
          \<and> state (contexts st2 (fst (getOutputAudioContext st))) \<noteq> closed
        \<longrightarrow> getOutputAudioContext st2 = (fst (getOutputAudioContext st), st2))
   \<and> ((case outputAudioContext st of None \<Rightarrow> True | Some r \<Rightarrow> state (contexts st r) = closed)
        \<longrightarrow> fst (getOutputAudioContext st) = allocated st
          \<and> contexts (snd (getOutputAudioContext st)) (allocated st)
              = \<lparr> state = suspended, sampleRate = 24000 \<rparr>
          \<and> allocated (snd (getOutputAudioContext st)) = Suc (allocated st)
          \<and> (\<forall>r. r \<noteq> allocated st \<longrightarrow>
                contexts (snd (getOutputAudioContext st)) r = contexts st r))
   \<and> (\<not> (case outputAudioContext st of None \<Rightarrow> True | Some r \<Rightarrow> state (contexts st r) = closed)
        \<longrightarrow> snd (getOutputAudioContext st) = st
          \<and> outputAudioContext st = Some (fst (getOutputAudioContext st)))"
proof (intro conjI allI impI)
  fix st2 :: audio_store
  assume "outputAudioContext st2 = outputAudioContext (snd (getOutputAudioContext st))
          \<and> state (contexts st2 (fst (getOutputAudioContext st))) \<noteq> closed"
  then show "getOutputAudioContext st2 = (fst (getOutputAudioContext st), st2)"
    by (intro getOutputAudioContext_reuses) (simp_all add: getOutputAudioContext_variable)
next
  assume c: "case outputAudioContext st of None \<Rightarrow> True | Some r \<Rightarrow> state (contexts st r) = closed"
  note eq = getOutputAudioContext_creates [OF c]
  show "fst (getOutputAudioContext st) = allocated st"
    and "contexts (snd (getOutputAudioContext st)) (allocated st)
              = \<lparr> state = suspended, sampleRate = 24000 \<rparr>"
    and "allocated (snd (getOutputAudioContext st)) = Suc (allocated st)"
    by (simp_all add: eq)
  fix r assume "r \<noteq> allocated st"
  then show "contexts (snd (getOutputAudioContext st)) r = contexts st r"
    by (simp add: eq)
next
  assume n: "\<not> (case outputAudioContext st of None \<Rightarrow> True | Some r \<Rightarrow> state (contexts st r) = closed)"
  then obtain r where r: "outputAudioContext st = Some r" "state (contexts st r) \<noteq> closed"
    by (cases "outputAudioContext st") auto
  show "snd (getOutputAudioContext st) = st"
    and "outputAudioContext st = Some (fst (getOutputAudioContext st))"
    using getOutputAudioContext_reuses [OF r] r by simp_all
qed

theorem getOutputAudioContext_idempotent_witness:
  "fst (getOutputAudioContext
      \<lparr> outputAudioContext = None,
        contexts = (\<lambda>r. \<lparr> state = closed, sampleRate = 0 \<rparr>), allocated = 0 \<rparr>) = 0
   \<and> getOutputAudioContext
      \<lparr> outputAudioContext = Some 0,
        contexts = (\<lambda>r. \<lparr> state = running, sampleRate = 24000 \<rparr>), allocated = 1 \<rparr>
     = (0, \<lparr> outputAudioContext = Some 0,
        contexts = (\<lambda>r. \<lparr> state = running, sampleRate = 24000 \<rparr>), allocated = 1 \<rparr>)
   \<and> contexts (snd (getOutputAudioContext
      \<lparr> outputAudioContext = None,
        contexts = (\<lambda>r. \<lparr> state = closed, sampleRate = 0 \<rparr>), allocated = 0 \<rparr>)) 0
     = \<lparr> state = suspended, sampleRate = 24000 \<rparr>"
proof -
  let ?st = "\<lparr> outputAudioContext = None,
        contexts = (\<lambda>r :: nat. \<lparr> state = closed, sampleRate = 0 \<rparr>), allocated = 0 \<rparr>"
  let ?st2 = "\<lparr> outputAudioContext = Some 0,
        contexts = (\<lambda>r :: nat. \<lparr> state = running, sampleRate = 24000 \<rparr>), allocated = 1 \<rparr>"
  note th = getOutputAudioContext_idempotent [of ?st]
  have c: "case outputAudioContext ?st of None \<Rightarrow> True | Some r \<Rightarrow> state (contexts ?st r) = closed"
    by simp
  from th c have a: "fst (getOutputAudioContext ?st) = allocated ?st"
    and b: "contexts (snd (getOutputAudioContext ?st)) (allocated ?st)
              = \<lparr> state = suspended, sampleRate = 24000 \<rparr>"
    by blast+
  have v: "outputAudioContext (snd (getOutputAudioContext ?st)) = Some 0"
    by (simp add: getOutputAudioContext_def new_AudioContext_def)
  have "outputAudioContext ?st2 = outputAudioContext (snd (getOutputAudioContext ?st))
          \<and> state (contexts ?st2 (fst (getOutputAudioContext ?st))) \<noteq> closed"
    using v by simp
  with th have "getOutputAudioContext ?st2 = (fst (getOutputAudioContext ?st), ?st2)"
    by blast
  with a b show ?thesis by simp
qed





section \<open>Properties of the uploaded files\<close>

lemma Map_set_keys:
  "map fst (Map_set m k v) = (if k \<in> fst ` set m then map fst m else map fst m @ [k])"
  by (induction m k v rule: Map_set.induct) auto

lemma Map_set_absent: "k \<notin> fst ` set m \<Longrightarrow> Map_set m k v = m @ [(k, v)]"
  by (induction m k v rule: Map_set.induct) auto

lemma Map_set_present:
  "distinct (map fst m) \<Longrightarrow> k \<in> fst ` set m \<Longrightarrow>
   Map_set m k v = map (\<lambda>(k', v'). if k' = k then (k, v) else (k', v')) m"
proof (induction m k v rule: Map_set.induct)
  case (1 k v)
  then show ?case by simp
next
  case (2 k' v' m k v)
  show ?case
  proof (cases "k' = k")
    case True
    then have "k \<notin> fst ` set m"
      using "2.prems"(1) by auto
    then have "map (\<lambda>(k', v'). if k' = k then (k, v) else (k', v')) m = m"
      by (induction m) auto
    with True show ?thesis by simp
  next
    case False
    with "2.prems" "2.IH" show ?thesis by auto
  qed
qed

text \<open>The invariant of \<open>fileMap\<close>: keys are distinct and each file sits under its name.\<close>

lemma Map_set_distinct: "distinct (map fst m) \<Longrightarrow> distinct (map fst (Map_set m k v))"
  by (simp add: Map_set_keys)

lemma set_Map_set: "set (Map_set m k v) \<subseteq> insert (k, v) (set m)"
  by (induction m k v rule: Map_set.induct) auto

lemma foldl_Map_set_distinct:
  "distinct (map fst m) \<Longrightarrow>
   distinct (map fst (foldl (\<lambda>fileMap file. Map_set fileMap (name file) file) m files))"
  by (induction files arbitrary: m) (simp_all add: Map_set_distinct)

lemma foldl_Map_set_keyed:
  "\<forall>e \<in> set m. fst e = name (snd e) \<Longrightarrow>
   \<forall>e \<in> set (foldl (\<lambda>fileMap file. Map_set fileMap (name file) file) m files).
     fst e = name (snd e)"
proof (induction files arbitrary: m)
  case Nil
  then show ?case by simp
next
  case (Cons g files)
  have "\<forall>e \<in> set (Map_set m (name g) g). fst e = name (snd e)"
    using Cons.prems set_Map_set [of m "name g" g] by auto
  then show ?case
    using Cons.IH by simp
qed

lemma new_Map_files:
  "new_Map (map (\<lambda>file. (name file, file)) files)
     = foldl (\<lambda>fileMap file. Map_set fileMap (name file) file) [] files"
proof -
  have "foldl (\<lambda>m (k, v). Map_set m k v) m0 (map (\<lambda>file. (name file, file)) files)
     = foldl (\<lambda>fileMap file. Map_set fileMap (name file) file) m0 files" for m0
    by (induction files arbitrary: m0) simp_all
  then show ?thesis by (simp add: new_Map_def)
qed

lemma keyed_names:
  assumes "\<forall>e \<in> set m. fst e = name (snd e)"
  shows "map name (Map_values m) = map fst m"
  using assms by (induction m) (auto simp: Map_values_def)

lemma handleFileChange_distinct:
  "distinct (map name (uploadedFiles (handleFileChange (Some newFiles) st)))"
proof -
  let ?m = "foldl (\<lambda>fileMap file. Map_set fileMap (name file) file)
              ([] :: (jsstring \<times> File) list) (uploadedFiles st @ newFiles)"
  have d: "distinct (map fst ?m)"
    by (rule foldl_Map_set_distinct) simp
  have k: "\<forall>e \<in> set ?m. fst e = name (snd e)"
    by (rule foldl_Map_set_keyed) simp
  have "uploadedFiles (handleFileChange (Some newFiles) st) = Map_values ?m"
    by (simp add: handleFileChange_def new_Map_files)
  with d k show ?thesis
    by (simp add: keyed_names)
qed

lemma file_step_distinct:
  assumes "distinct (map name (uploadedFiles st))"
  shows "distinct (map name (uploadedFiles (file_step st operation)))"
proof (cases operation)
  case (Select files)
  then show ?thesis
    using assms handleFileChange_distinct [of _ st]
    by (cases files) (simp_all add: handleFileChange_def)
next
  case (Remove fileName)
  then show ?thesis
    using assms by (simp add: handleRemoveFile_def distinct_map_filter)
qed

lemma file_steps_distinct:
  assumes "distinct (map name (uploadedFiles st))"
  shows "distinct (map name (uploadedFiles (foldl file_step st operations)))"
  using assms
  by (induction operations arbitrary: st) (simp_all add: file_step_distinct)

lemma new_Map_distinct:
  fixes files :: "File list"
  assumes "distinct (map name files)"
  shows "foldl (\<lambda>fileMap file. Map_set fileMap (name file) file) [] files
    = map (\<lambda>file. (name file, file)) files"
proof -
  have "foldl (\<lambda>fileMap file. Map_set fileMap (name file) file)
          (map (\<lambda>file. (name file, file)) seen) rest
      = map (\<lambda>file. (name file, file)) (seen @ rest)"
    if "distinct (map name (seen @ rest))" for seen rest :: "File list"
    using that
  proof (induction rest arbitrary: seen)
    case Nil
    then show ?case by simp
  next
    case (Cons g rest)
    have "name g \<notin> fst ` set (map (\<lambda>file. (name file, file)) seen)"
      using Cons.prems by (auto simp: image_iff)
    then have "Map_set (map (\<lambda>file. (name file, file)) seen) (name g) g
        = map (\<lambda>file. (name file, file)) (seen @ [g])"
      by (simp add: Map_set_absent)
    then show ?case
      using Cons.IH [of "seen @ [g]"] Cons.prems by simp
  qed
  from this [of "[]" files] assms show ?thesis by simp
qed

lemma handleFileChange_replaces:
  assumes "distinct (map name (uploadedFiles st))"
    and "name file \<in> name ` set (uploadedFiles st)"
  shows "uploadedFiles (handleFileChange (Some [file]) st)
    = map (\<lambda>f. if name f = name file then file else f) (uploadedFiles st)"
proof -
  let ?m = "map (\<lambda>f. (name f, f)) (uploadedFiles st)"
  have d: "distinct (map fst ?m)"
    using assms(1) by (simp add: comp_def)
  have p: "name file \<in> fst ` set ?m"
    using assms(2) by (auto simp: image_iff)
  have "uploadedFiles (handleFileChange (Some [file]) st)
      = Map_values (Map_set ?m (name file) file)"
    by (simp add: handleFileChange_def new_Map_files new_Map_distinct [OF assms(1)])
  also have "\<dots> = map (\<lambda>f. if name f = name file then file else f) (uploadedFiles st)"
    unfolding Map_set_present [OF d p] by (simp add: Map_values_def comp_def)
  finally show ?thesis .
qed

lemma handleFileChange_appends:
  assumes "distinct (map name (uploadedFiles st))"
    and "name file \<notin> name ` set (uploadedFiles st)"
  shows "uploadedFiles (handleFileChange (Some [file]) st) = uploadedFiles st @ [file]"
proof -
  let ?m = "map (\<lambda>f. (name f, f)) (uploadedFiles st)"
  have p: "name file \<notin> fst ` set ?m"
    using assms(2) by (auto simp: image_iff)
  have "uploadedFiles (handleFileChange (Some [file]) st)
      = Map_values (Map_set ?m (name file) file)"
    by (simp add: handleFileChange_def new_Map_files new_Map_distinct [OF assms(1)])
  also have "\<dots> = uploadedFiles st @ [file]"
    unfolding Map_set_absent [OF p] by (simp add: Map_values_def comp_def)
  finally show ?thesis .
qed

text \<open>
  Claim C9. After any sequence of file selections and removals, starting from the empty
  list of a freshly mounted component, the names in \<open>uploadedFiles\<close> are pairwise
  distinct. Selecting a file whose name is present replaces the entry of that name, in
  its place, and leaves the others as they are. Removing by name leaves no entry of that
  name and keeps all other entries, in their order.
\<close>

theorem uploaded_file_names_distinct:
  "distinct (map name (uploadedFiles (foldl file_step initial_App operations)))
   \<and> (\<forall>st file. distinct (map name (uploadedFiles st))
         \<and> name file \<in> name ` set (uploadedFiles st) \<longrightarrow>
         uploadedFiles (handleFileChange (Some [file]) st)
           = map (\<lambda>f. if name f = name file then file else f) (uploadedFiles st))
   \<and> (\<forall>st fileName.
         fileName \<notin> name ` set (uploadedFiles (handleRemoveFile fileName st))
         \<and> uploadedFiles (handleRemoveFile fileName st)
             = filter (\<lambda>f. name f \<noteq> fileName) (uploadedFiles st)
         \<and> (\<forall>f \<in> set (uploadedFiles st). name f \<noteq> fileName \<longrightarrow>
               f \<in> set (uploadedFiles (handleRemoveFile fileName st))))"
proof -
  have a: "distinct (map name (uploadedFiles (foldl file_step initial_App operations)))"
    by (rule file_steps_distinct) (simp add: initial_App_def)
  have c: "fileName \<notin> name ` set (uploadedFiles (handleRemoveFile fileName st))
         \<and> uploadedFiles (handleRemoveFile fileName st)
             = filter (\<lambda>f. name f \<noteq> fileName) (uploadedFiles st)
         \<and> (\<forall>f \<in> set (uploadedFiles st). name f \<noteq> fileName \<longrightarrow>
               f \<in> set (uploadedFiles (handleRemoveFile fileName st)))" for st fileName
    by (auto simp: handleRemoveFile_def)
  from a handleFileChange_replaces c show ?thesis by blast
qed

theorem uploaded_file_names_distinct_witness:
  "distinct (map name [\<lparr> name = lit ''a.txt'', contents = [1] \<rparr>, \<lparr> name = lit ''b.txt'', contents = [] \<rparr>])
   \<and> name (\<lparr> name = lit ''a.txt'', contents = [2] \<rparr>) \<in> name ` set [\<lparr> name = lit ''a.txt'', contents = [1] \<rparr>, \<lparr> name = lit ''b.txt'', contents = [] \<rparr>]
   \<and> uploadedFiles (handleFileChange (Some [\<lparr> name = lit ''a.txt'', contents = [2] \<rparr>]) (initial_App\<lparr> uploadedFiles := [\<lparr> name = lit ''a.txt'', contents = [1] \<rparr>, \<lparr> name = lit ''b.txt'', contents = [] \<rparr>] \<rparr>))
       = [\<lparr> name = lit ''a.txt'', contents = [2] \<rparr>, \<lparr> name = lit ''b.txt'', contents = [] \<rparr>]
   \<and> \<lparr> name = lit ''a.txt'', contents = [1] \<rparr> \<in> set [\<lparr> name = lit ''a.txt'', contents = [1] \<rparr>, \<lparr> name = lit ''b.txt'', contents = [] \<rparr>] \<and> name (\<lparr> name = lit ''a.txt'', contents = [1] \<rparr>) \<noteq> lit ''b.txt''
   \<and> \<lparr> name = lit ''a.txt'', contents = [1] \<rparr> \<in> set (uploadedFiles (handleRemoveFile (lit ''b.txt'')
                       (initial_App\<lparr> uploadedFiles := [\<lparr> name = lit ''a.txt'', contents = [1] \<rparr>, \<lparr> name = lit ''b.txt'', contents = [] \<rparr>] \<rparr>)))"
proof -
  let ?st = "initial_App\<lparr> uploadedFiles := [\<lparr> name = lit ''a.txt'', contents = [1] \<rparr>, \<lparr> name = lit ''b.txt'', contents = [] \<rparr>] \<rparr>"
  note th = uploaded_file_names_distinct [of "[]"]
  have d: "distinct (map name (uploadedFiles ?st))"
    by (simp add: lit_def)
  have p: "name (\<lparr> name = lit ''a.txt'', contents = [2] \<rparr>) \<in> name ` set (uploadedFiles ?st)"
    by simp
  from th d p have "uploadedFiles (handleFileChange (Some [\<lparr> name = lit ''a.txt'', contents = [2] \<rparr>]) ?st)
      = map (\<lambda>f. if name f = name (\<lparr> name = lit ''a.txt'', contents = [2] \<rparr>) then \<lparr> name = lit ''a.txt'', contents = [2] \<rparr> else f) (uploadedFiles ?st)"
    by blast
  then have one: "uploadedFiles (handleFileChange (Some [\<lparr> name = lit ''a.txt'', contents = [2] \<rparr>]) ?st) = [\<lparr> name = lit ''a.txt'', contents = [2] \<rparr>, \<lparr> name = lit ''b.txt'', contents = [] \<rparr>]"
    by (simp add: lit_def)
  have m: "\<lparr> name = lit ''a.txt'', contents = [1] \<rparr> \<in> set (uploadedFiles ?st)" and n: "name (\<lparr> name = lit ''a.txt'', contents = [1] \<rparr>) \<noteq> lit ''b.txt''"
    by (simp_all add: lit_def)
  from th m n have two: "\<lparr> name = lit ''a.txt'', contents = [1] \<rparr> \<in> set (uploadedFiles (handleRemoveFile (lit ''b.txt'') ?st))"
    by blast
  from d p one m n two show ?thesis by simp
qed

section \<open>Properties of the \<open>App\<close> component\<close>

text \<open>
  Claim C7. \<open>AppState\<close> has exactly the four members \<open>IDLE\<close>, \<open>CONNECTING\<close>,
  \<open>CONNECTED\<close> and \<open>ERROR\<close>, whose values are their names; an author is \<open>user\<close> or
  \<open>gemini\<close>; a \<open>TranscriptionEntry\<close> is determined by its two fields \<open>author\<close> and
  \<open>text\<close>, which may take any values of their types.
\<close>

theorem data_model_shape:
  "(UNIV :: AppState set) = {IDLE, CONNECTING, CONNECTED, ERROR}
   \<and> distinct [IDLE, CONNECTING, CONNECTED, ERROR]
   \<and> card (UNIV :: AppState set) = 4
   \<and> map AppState_value [IDLE, CONNECTING, CONNECTED, ERROR]
       = [lit ''IDLE'', lit ''CONNECTING'', lit ''CONNECTED'', lit ''ERROR'']
   \<and> (UNIV :: Author set) = {user, gemini} \<and> user \<noteq> gemini
   \<and> map Author_value [user, gemini] = [lit ''user'', lit ''gemini'']
   \<and> (\<forall>e :: TranscriptionEntry. e = \<lparr> author = author e, text = text e \<rparr>)
   \<and> (\<forall>a t. author \<lparr> author = a, text = t \<rparr> = a \<and> text \<lparr> author = a, text = t \<rparr> = t)"
proof -
  have u: "(UNIV :: AppState set) = {IDLE, CONNECTING, CONNECTED, ERROR}"
    using AppState.exhaust by auto
  have c: "card (UNIV :: AppState set) = 4"
    unfolding u by simp
  have a: "(UNIV :: Author set) = {user, gemini}"
    using Author.exhaust by auto
  show ?thesis
    using u c a by simp
qed

lemma onError_fields:
  "error (onError e st)
     = Some (lit ''An error occurred: '' @ message e @ lit ''. Please try again.'')"
  "appState (onError e st) = ERROR"
  "liveSessionRef (onError e st) = None"
  "effects (onError e st)
     = effects st @ [console_error (lit ''Gemini Live API Error:'') e]
       @ (case liveSessionRef st of None \<Rightarrow> [] | Some liveSession \<Rightarrow> stopConversation liveSession)"
  "transcriptionHistory (onError e st) = transcriptionHistory st"
  "uploadedFiles (onError e st) = uploadedFiles st"
  "isProcessingFileQuery (onError e st) = isProcessingFileQuery st"
  "currentInputTranscriptionRef (onError e st) = currentInputTranscriptionRef st"
  "currentOutputTranscriptionRef (onError e st) = currentOutputTranscriptionRef st"
  by (simp_all add: onError_def Let_def split: option.splits)

lemma startConversation_not_in_close: "startConversation_called \<notin> set (stopConversation ls)"
  by (simp add: stopConversation_def close_def)

lemma reactions_close:
  "reactions settled (e # close ls)
     = reaction settled e
       @ (if settled (session ls) = fulfilled then [session_close (session ls)] else [])"
  by (simp add: reactions_def close_def)

text \<open>
  Claim C6 says that every error of the live session makes \<open>onError\<close> close the live
  session. An error that arrives after \<open>handleStart\<close> has called \<open>startConversation\<close>
  and before it has stored the session in \<open>liveSessionRef\<close> finds the reference empty:
  the error is logged and shown, and nothing is closed.
\<close>

theorem onError_without_session_counterexample:
  "liveSessionRef (handleStart_begin initial_App) = None
   \<and> effects (onerror onError (lit ''network error'') (handleStart_begin initial_App))
     = [startConversation_called,
        console_error (lit ''Gemini Live API Error:'') (Error (lit ''network error''))]"
  by (simp add: onerror_def onError_def handleStart_begin_def initial_App_def)

text \<open>
  Claim C6, amended. An error event of the live session with message \<open>m\<close> sets the error
  text to \<open>An error occurred: m. Please try again.\<close> and the state to \<open>ERROR\<close>, and clears
  \<open>liveSessionRef\<close>. When a session was stored there, its \<open>close\<close> is called: after the log
  entry, a reaction is registered on \<open>sessionPromise\<close>, the script processor and the
  source are disconnected, the input context is closed and the tracks are stopped, in
  this order and within the handler. \<open>session.close()\<close> is not called within the
  handler: it is what the reaction does, once the handler has returned, if
  \<open>sessionPromise\<close> is fulfilled, and it is never called if the promise is rejected or
  stays pending. When no session was stored, the log entry is the only effect and no
  reaction is registered. In both cases \<open>startConversation\<close> is not called again, and
  the history, the files and the accumulators are left as they were.
\<close>

theorem onError_surfaces_error:
  "error (onerror onError m st)
     = Some (lit ''An error occurred: '' @ m @ lit ''. Please try again.'')
   \<and> appState (onerror onError m st) = ERROR
   \<and> liveSessionRef (onerror onError m st) = None
   \<and> (\<forall>liveSession. liveSessionRef st = Some liveSession \<longrightarrow>
         effects (onerror onError m st)
           = effects st
             @ [console_error (lit ''Gemini Live API Error:'') (Error m),
                sessionPromise_then (session liveSession),
                scriptProcessor_disconnect (session liveSession),
                source_disconnect (session liveSession),
                inputAudioContext_close (session liveSession),
                tracks_stop (session liveSession)]
       \<and> session_close (session liveSession)
           \<notin> set (drop (length (effects st)) (effects (onerror onError m st)))
       \<and> (\<forall>settled.
             reactions settled (drop (length (effects st)) (effects (onerror onError m st)))
               = (if settled (session liveSession) = fulfilled
                  then [session_close (session liveSession)] else [])))
   \<and> (liveSessionRef st = None \<longrightarrow>
         effects (onerror onError m st)
           = effects st @ [console_error (lit ''Gemini Live API Error:'') (Error m)]
       \<and> (\<forall>settled.
             reactions settled (drop (length (effects st)) (effects (onerror onError m st)))
               = []))
   \<and> startConversation_called
       \<notin> set (drop (length (effects st)) (effects (onerror onError m st)))
   \<and> transcriptionHistory (onerror onError m st) = transcriptionHistory st
   \<and> uploadedFiles (onerror onError m st) = uploadedFiles st
   \<and> isProcessingFileQuery (onerror onError m st) = isProcessingFileQuery st
   \<and> currentInputTranscriptionRef (onerror onError m st) = currentInputTranscriptionRef st
   \<and> currentOutputTranscriptionRef (onerror onError m st) = currentOutputTranscriptionRef st"
proof -
  let ?log = "console_error (lit ''Gemini Live API Error:'') (Error m)"
  have eff: "effects (onerror onError m st)
       = effects st @ ?log
         # (case liveSessionRef st of None \<Rightarrow> [] | Some liveSession \<Rightarrow> close liveSession)"
    by (simp add: onerror_def onError_fields stopConversation_def split: option.splits)
  have new: "drop (length (effects st)) (effects (onerror onError m st))
       = ?log # (case liveSessionRef st of None \<Rightarrow> [] | Some liveSession \<Rightarrow> close liveSession)"
    by (simp add: eff)
  have stored: "effects (onerror onError m st)
           = effects st
             @ [?log, sessionPromise_then (session liveSession),
                scriptProcessor_disconnect (session liveSession),
                source_disconnect (session liveSession),
                inputAudioContext_close (session liveSession),
                tracks_stop (session liveSession)]
       \<and> session_close (session liveSession)
           \<notin> set (drop (length (effects st)) (effects (onerror onError m st)))
       \<and> (\<forall>settled.
             reactions settled (drop (length (effects st)) (effects (onerror onError m st)))
               = (if settled (session liveSession) = fulfilled
                  then [session_close (session liveSession)] else []))"
    if "liveSessionRef st = Some liveSession" for liveSession
  proof (intro conjI allI)
    show "effects (onerror onError m st)
           = effects st
             @ [?log, sessionPromise_then (session liveSession),
                scriptProcessor_disconnect (session liveSession),
                source_disconnect (session liveSession),
                inputAudioContext_close (session liveSession),
                tracks_stop (session liveSession)]"
      using that by (simp add: eff close_def)
    show "session_close (session liveSession)
           \<notin> set (drop (length (effects st)) (effects (onerror onError m st)))"
      using that by (simp add: new close_def)
    show "reactions settled (drop (length (effects st)) (effects (onerror onError m st)))
               = (if settled (session liveSession) = fulfilled
                  then [session_close (session liveSession)] else [])" for settled
      using that by (simp add: new reactions_close)
  qed
  have empty: "effects (onerror onError m st) = effects st @ [?log]
       \<and> (\<forall>settled.
             reactions settled (drop (length (effects st)) (effects (onerror onError m st)))
               = [])"
    if "liveSessionRef st = None"
    using that by (simp add: eff reactions_def)
  have no_retry: "startConversation_called
       \<notin> set (drop (length (effects st)) (effects (onerror onError m st)))"
    by (simp add: new close_def split: option.splits)
  have fields: "error (onerror onError m st)
       = Some (lit ''An error occurred: '' @ m @ lit ''. Please try again.'')"
    "appState (onerror onError m st) = ERROR"
    "liveSessionRef (onerror onError m st) = None"
    "transcriptionHistory (onerror onError m st) = transcriptionHistory st"
    "uploadedFiles (onerror onError m st) = uploadedFiles st"
    "isProcessingFileQuery (onerror onError m st) = isProcessingFileQuery st"
    "currentInputTranscriptionRef (onerror onError m st) = currentInputTranscriptionRef st"
    "currentOutputTranscriptionRef (onerror onError m st) = currentOutputTranscriptionRef st"
    by (simp_all add: onerror_def onError_fields)
  show ?thesis
    using fields stored empty no_retry by (intro conjI allI impI) blast+
qed

theorem onError_surfaces_error_witness:
  "liveSessionRef (initial_App\<lparr> appState := CONNECTED, liveSessionRef := Some \<lparr> session = 7 \<rparr> \<rparr>)
     = Some \<lparr> session = 7 \<rparr>
   \<and> effects (onerror onError (lit ''socket closed'')
        (initial_App\<lparr> appState := CONNECTED, liveSessionRef := Some \<lparr> session = 7 \<rparr> \<rparr>))
     = [console_error (lit ''Gemini Live API Error:'') (Error (lit ''socket closed'')),
        sessionPromise_then 7, scriptProcessor_disconnect 7, source_disconnect 7,
        inputAudioContext_close 7, tracks_stop 7]
   \<and> reactions (\<lambda>n. fulfilled)
        (effects (onerror onError (lit ''socket closed'')
           (initial_App\<lparr> appState := CONNECTED, liveSessionRef := Some \<lparr> session = 7 \<rparr> \<rparr>)))
     = [session_close 7]
   \<and> reactions (\<lambda>n. rejected)
        (effects (onerror onError (lit ''socket closed'')
           (initial_App\<lparr> appState := CONNECTED, liveSessionRef := Some \<lparr> session = 7 \<rparr> \<rparr>)))
     = []
   \<and> appState (onerror onError (lit ''socket closed'')
        (initial_App\<lparr> appState := CONNECTED, liveSessionRef := Some \<lparr> session = 7 \<rparr> \<rparr>)) = ERROR"
proof -
  let ?st = "initial_App\<lparr> appState := CONNECTED, liveSessionRef := Some \<lparr> session = 7 \<rparr> \<rparr>"
  let ?after = "onerror onError (lit ''socket closed'') ?st"
  note th = onError_surfaces_error [of "lit ''socket closed''" ?st]
  have r: "liveSessionRef ?st = Some \<lparr> session = 7 \<rparr>"
    by simp
  have none: "effects ?st = []"
    by (simp add: initial_App_def)
  from th r have stored: "effects ?after
      = effects ?st
        @ [console_error (lit ''Gemini Live API Error:'') (Error (lit ''socket closed'')),
           sessionPromise_then (session \<lparr> session = 7 \<rparr>),
           scriptProcessor_disconnect (session \<lparr> session = 7 \<rparr>),
           source_disconnect (session \<lparr> session = 7 \<rparr>),
           inputAudioContext_close (session \<lparr> session = 7 \<rparr>),
           tracks_stop (session \<lparr> session = 7 \<rparr>)]"
    and react: "\<forall>settled. reactions settled (drop (length (effects ?st)) (effects ?after))
        = (if settled (session \<lparr> session = 7 \<rparr>) = fulfilled
           then [session_close (session \<lparr> session = 7 \<rparr>)] else [])"
    by blast+
  have a: "effects ?after
      = [console_error (lit ''Gemini Live API Error:'') (Error (lit ''socket closed'')),
         sessionPromise_then 7, scriptProcessor_disconnect 7, source_disconnect 7,
         inputAudioContext_close 7, tracks_stop 7]"
    using stored none by simp
  have b: "reactions (\<lambda>n. fulfilled) (effects ?after) = [session_close 7]"
    using react [rule_format, of "\<lambda>n. fulfilled"] none by simp
  have c: "reactions (\<lambda>n. rejected) (effects ?after) = []"
    using react [rule_format, of "\<lambda>n. rejected"] none by simp
  from th have d: "appState ?after = ERROR"
    by blast
  from r a b c d show ?thesis
    by (intro conjI)
qed

lemma trim_Nil: "trim [] = []"
  by (simp add: trim_def)

lemma onMessage_begin_commits:
  "transcriptionHistory (fst (onMessage_begin files inputTranscript outputTranscript True st))
     = transcriptionHistory st
       @ committed (accumulate (currentInputTranscriptionRef st) inputTranscript)
           (accumulate (currentOutputTranscriptionRef st) outputTranscript)"
  by (simp add: onMessage_begin_def committed_def Let_def)

lemma onMessage_begin_no_query:
  assumes "trim (accumulate (currentInputTranscriptionRef st) inputTranscript) = [] \<or> files = []"
  shows "snd (onMessage_begin files inputTranscript outputTranscript True st) = None"
    and "currentInputTranscriptionRef
           (fst (onMessage_begin files inputTranscript outputTranscript True st)) = []"
    and "currentOutputTranscriptionRef
           (fst (onMessage_begin files inputTranscript outputTranscript True st)) = []"
  using assms by (auto simp: onMessage_begin_def Let_def)

lemma onMessage_begin_query:
  assumes "trim (accumulate (currentInputTranscriptionRef st) inputTranscript) \<noteq> []"
    and "files \<noteq> []"
  shows "snd (onMessage_begin files inputTranscript outputTranscript True st)
      = Some (trim (accumulate (currentInputTranscriptionRef st) inputTranscript))"
    and "currentInputTranscriptionRef
           (fst (onMessage_begin files inputTranscript outputTranscript True st))
      = accumulate (currentInputTranscriptionRef st) inputTranscript"
    and "currentOutputTranscriptionRef
           (fst (onMessage_begin files inputTranscript outputTranscript True st))
      = accumulate (currentOutputTranscriptionRef st) outputTranscript"
  using assms by (auto simp: onMessage_begin_def Let_def)

lemma onMessage_settle_resets:
  "currentInputTranscriptionRef (onMessage_settle answered speak st) = []"
  "currentOutputTranscriptionRef (onMessage_settle answered speak st) = []"
  by (simp_all add: onMessage_settle_def Let_def)

lemma onMessage_settle_history:
  "transcriptionHistory (onMessage_settle answered speak st)
     = transcriptionHistory st
       @ (case answered of Inl err \<Rightarrow> []
          | Inr textResponse \<Rightarrow> [\<lparr> author = gemini, text = textResponse \<rparr>])"
  by (simp add: onMessage_settle_def on_file_query_error_def Let_def split: sum.splits)

text \<open>
  A call with \<open>turnComplete\<close> during which nothing else is handled: the entries of the turn
  are appended, the user's first, each only when its trimmed text is not empty, followed
  by the answer of the file query when there is one; both accumulators end up empty.
\<close>

lemma onMessage_turn_complete:
  "currentInputTranscriptionRef
     (onMessage answer speak files inputTranscript outputTranscript True st) = []"
  "currentOutputTranscriptionRef
     (onMessage answer speak files inputTranscript outputTranscript True st) = []"
  "transcriptionHistory (onMessage answer speak files inputTranscript outputTranscript True st)
     = transcriptionHistory st
       @ committed (accumulate (currentInputTranscriptionRef st) inputTranscript)
           (accumulate (currentOutputTranscriptionRef st) outputTranscript)
       @ (if trim (accumulate (currentInputTranscriptionRef st) inputTranscript) \<noteq> []
             \<and> files \<noteq> []
          then (case answer (trim (accumulate (currentInputTranscriptionRef st) inputTranscript))
                       files of
                  Inl err \<Rightarrow> []
                | Inr textResponse \<Rightarrow> [\<lparr> author = gemini, text = textResponse \<rparr>])
          else [])"
proof -
  let ?b = "onMessage_begin files inputTranscript outputTranscript True st"
  let ?full = "trim (accumulate (currentInputTranscriptionRef st) inputTranscript)"
  have split: "onMessage answer speak files inputTranscript outputTranscript True st
      = (if ?full \<noteq> [] \<and> files \<noteq> []
         then onMessage_settle (answer ?full files) speak (fst ?b) else fst ?b)"
  proof -
    obtain s1 p where bp: "?b = (s1, p)"
      by (cases ?b)
    show ?thesis
    proof (cases "?full \<noteq> [] \<and> files \<noteq> []")
      case True
      then have "snd ?b = Some ?full"
        by (simp add: onMessage_begin_query)
      then show ?thesis
        using True bp by (simp add: onMessage_def)
    next
      case False
      then have "snd ?b = None"
        by (auto simp: onMessage_begin_def Let_def)
      then show ?thesis
        using False bp by (auto simp: onMessage_def)
    qed
  qed
  show "currentInputTranscriptionRef
     (onMessage answer speak files inputTranscript outputTranscript True st) = []"
    using onMessage_begin_no_query(2) [of st inputTranscript files outputTranscript]
    by (auto simp: split onMessage_settle_resets)
  show "currentOutputTranscriptionRef
     (onMessage answer speak files inputTranscript outputTranscript True st) = []"
    using onMessage_begin_no_query(3) [of st inputTranscript files outputTranscript]
    by (auto simp: split onMessage_settle_resets)
  show "transcriptionHistory (onMessage answer speak files inputTranscript outputTranscript True st)
     = transcriptionHistory st
       @ committed (accumulate (currentInputTranscriptionRef st) inputTranscript)
           (accumulate (currentOutputTranscriptionRef st) outputTranscript)
       @ (if ?full \<noteq> [] \<and> files \<noteq> []
          then (case answer ?full files of
                  Inl err \<Rightarrow> []
                | Inr textResponse \<Rightarrow> [\<lparr> author = gemini, text = textResponse \<rparr>])
          else [])"
    by (simp add: split onMessage_settle_history onMessage_begin_commits)
qed

text \<open>
  Claim C4 says that the accumulators are reset before the fragments of the next turn
  arrive. With a file uploaded, the call that completes the turn \<open>hello\<close> starts a file
  query and is suspended with the accumulator still holding \<open>hello\<close>. A fragment \<open>next\<close>
  handled meanwhile is appended to it, giving \<open>hellonext\<close>, and is lost when the
  suspended call resumes and resets the accumulator.
\<close>

theorem late_reset_drops_fragment:
  "snd (onMessage_begin [\<lparr> name = lit ''notes.txt'', contents = [] \<rparr>]
          (Some (lit ''hello'')) None True initial_App) = Some (lit ''hello'')
   \<and> currentInputTranscriptionRef
        (fst (onMessage_begin [\<lparr> name = lit ''notes.txt'', contents = [] \<rparr>]
           (Some (lit ''hello'')) None True initial_App)) = lit ''hello''
   \<and> currentInputTranscriptionRef
        (fst (onMessage_begin [\<lparr> name = lit ''notes.txt'', contents = [] \<rparr>]
           (Some (lit ''next'')) None False
           (fst (onMessage_begin [\<lparr> name = lit ''notes.txt'', contents = [] \<rparr>]
              (Some (lit ''hello'')) None True initial_App)))) = lit ''hellonext''
   \<and> currentInputTranscriptionRef
        (onMessage_settle (Inr (lit ''answer''))
           (\<lambda>t. Inr \<lparr> frames = 24000, bufferRate = 24000 \<rparr>)
           (fst (onMessage_begin [\<lparr> name = lit ''notes.txt'', contents = [] \<rparr>]
              (Some (lit ''next'')) None False
              (fst (onMessage_begin [\<lparr> name = lit ''notes.txt'', contents = [] \<rparr>]
                 (Some (lit ''hello'')) None True initial_App))))) = []"
proof -
  let ?files = "[\<lparr> name = lit ''notes.txt'', contents = [] \<rparr>]"
  have t: "trim (lit ''hello'') = lit ''hello''"
    by (simp add: trim_def lit_def is_whitespace_def)
  have ne: "lit ''hello'' \<noteq> []" "lit ''next'' \<noteq> []"
    by (simp_all add: lit_def)
  have acc: "accumulate [] (Some (lit ''hello'')) = lit ''hello''"
    using ne by (simp add: accumulate_def)
  have b: "onMessage_begin ?files (Some (lit ''hello'')) None True initial_App
    = (initial_App\<lparr> currentInputTranscriptionRef := lit ''hello'',
         transcriptionHistory := [\<lparr> author = user, text = lit ''hello'' \<rparr>],
         isProcessingFileQuery := True, error := None \<rparr>, Some (lit ''hello''))"
    using ne by (simp add: onMessage_begin_def Let_def accumulate_def t trim_Nil initial_App_def)
  have n: "currentInputTranscriptionRef
      (fst (onMessage_begin ?files (Some (lit ''next'')) None False
         (initial_App\<lparr> currentInputTranscriptionRef := lit ''hello'',
         transcriptionHistory := [\<lparr> author = user, text = lit ''hello'' \<rparr>],
         isProcessingFileQuery := True, error := None \<rparr>)))
      = lit ''hellonext''"
    using ne by (simp add: onMessage_begin_def Let_def accumulate_def lit_def)
  show ?thesis
    unfolding b using n by (simp add: onMessage_settle_resets)
qed

lemma fragments_Cons: "fragments (f # fs) = (case f of None \<Rightarrow> [] | Some s \<Rightarrow> s) @ fragments fs"
  by (simp add: fragments_def)

lemma accumulate_fragment:
  "accumulate acc fragment = acc @ (case fragment of None \<Rightarrow> [] | Some s \<Rightarrow> s)"
  by (simp add: accumulate_def split: option.splits)

lemma onMessage_within_turn:
  "onMessage answer speak files inputTranscript outputTranscript False st
     = st\<lparr> currentInputTranscriptionRef :=
              accumulate (currentInputTranscriptionRef st) inputTranscript,
            currentOutputTranscriptionRef :=
              accumulate (currentOutputTranscriptionRef st) outputTranscript \<rparr>"
  by (simp add: onMessage_def onMessage_begin_def Let_def)

lemma onMessage_calls_Cons:
  "onMessage_calls answer speak files st ((i, o', t) # cs)
     = onMessage_calls answer speak files (onMessage answer speak files i o' t st) cs"
  by (simp add: onMessage_calls_def)

text \<open>
  Calls of \<open>onMessage\<close> none of which completes a turn add to each accumulator the
  fragments received that are not \<open>null\<close>, in order of arrival, and leave the history as
  it is. What the accumulators held before stays in front.
\<close>

lemma onMessage_calls_within_turn:
  assumes "\<forall>c \<in> set cs. \<not> snd (snd c)"
  shows "currentInputTranscriptionRef (onMessage_calls answer speak files st cs)
      = currentInputTranscriptionRef st @ fragments (map fst cs)"
    and "currentOutputTranscriptionRef (onMessage_calls answer speak files st cs)
      = currentOutputTranscriptionRef st @ fragments (map (fst \<circ> snd) cs)"
    and "transcriptionHistory (onMessage_calls answer speak files st cs)
      = transcriptionHistory st"
  using assms
proof (induction cs arbitrary: st)
  case Nil
  {
    case 1 show ?case by (simp add: onMessage_calls_def fragments_def)
  next
    case 2 show ?case by (simp add: onMessage_calls_def fragments_def)
  next
    case 3 show ?case by (simp add: onMessage_calls_def)
  }
next
  case (Cons c cs)
  obtain i o' t where c: "c = (i, o', t)" by (cases c)
  {
    case 1
    then have t: "\<not> t" and rest: "\<forall>c \<in> set cs. \<not> snd (snd c)"
      using c by simp_all
    show ?case
      using Cons.IH(1) [OF rest] t
      by (simp add: c onMessage_calls_Cons onMessage_within_turn fragments_Cons
            accumulate_fragment)
  next
    case 2
    then have t: "\<not> t" and rest: "\<forall>c \<in> set cs. \<not> snd (snd c)"
      using c by simp_all
    show ?case
      using Cons.IH(2) [OF rest] t
      by (simp add: c onMessage_calls_Cons onMessage_within_turn fragments_Cons
            accumulate_fragment)
  next
    case 3
    then have t: "\<not> t" and rest: "\<forall>c \<in> set cs. \<not> snd (snd c)"
      using c by simp_all
    show ?case
      using Cons.IH(3) [OF rest] t
      by (simp add: c onMessage_calls_Cons onMessage_within_turn)
  }
qed

text \<open>
  Claim C5 says that after any sequence of calls since the last turn completion each
  accumulator holds the fragments received in that sequence, and no more. With a file
  uploaded, the call that completes the turn \<open>sum\<close>, answered \<open>ok\<close>, starts a file query
  and is suspended at line 291, before the reset of lines 304 and 305. The call that
  follows brings the fragments \<open>and\<close> and \<open>also\<close>, the only ones since the turn was
  completed: the accumulators then hold \<open>sumand\<close> and \<open>okalso\<close>. The suspended call
  resumes and empties both, so that after one more call, with the fragment \<open>more\<close>, the
  input accumulator holds \<open>more\<close> where the fragments received since the turn was
  completed are \<open>andmore\<close>.
\<close>

theorem suspended_turn_breaks_accumulation:
  "(let files = [\<lparr> name = lit ''notes.txt'', contents = [] \<rparr>];
        completing = onMessage_begin files (Some (lit ''sum'')) (Some (lit ''ok'')) True initial_App;
        during = fst (onMessage_begin files (Some (lit ''and'')) (Some (lit ''also'')) False
                        (fst completing));
        resumed = onMessage_settle (Inr (lit ''answer''))
                    (\<lambda>t. Inr \<lparr> frames = 24000, bufferRate = 24000 \<rparr>) during;
        after = fst (onMessage_begin files (Some (lit ''more'')) None False resumed)
    in snd completing = Some (lit ''sum'')
     \<and> transcriptionHistory (fst completing)
         = [\<lparr> author = user, text = lit ''sum'' \<rparr>, \<lparr> author = gemini, text = lit ''ok'' \<rparr>]
     \<and> fragments [Some (lit ''and'')] = lit ''and''
     \<and> currentInputTranscriptionRef during = lit ''sumand''
     \<and> fragments [Some (lit ''also'')] = lit ''also''
     \<and> currentOutputTranscriptionRef during = lit ''okalso''
     \<and> fragments [Some (lit ''and''), Some (lit ''more'')] = lit ''andmore''
     \<and> currentInputTranscriptionRef after = lit ''more'')"
proof -
  let ?files = "[\<lparr> name = lit ''notes.txt'', contents = [] \<rparr>]"
  have t: "trim (lit ''sum'') = lit ''sum''" "trim (lit ''ok'') = lit ''ok''"
    by (simp_all add: trim_def lit_def is_whitespace_def)
  have ne: "lit ''sum'' \<noteq> []" "lit ''ok'' \<noteq> []" "lit ''and'' \<noteq> []" "lit ''also'' \<noteq> []"
    "lit ''more'' \<noteq> []"
    by (simp_all add: lit_def)
  have b: "onMessage_begin ?files (Some (lit ''sum'')) (Some (lit ''ok'')) True initial_App
    = (initial_App\<lparr> currentInputTranscriptionRef := lit ''sum'',
         currentOutputTranscriptionRef := lit ''ok'',
         transcriptionHistory := [\<lparr> author = user, text = lit ''sum'' \<rparr>,
                                  \<lparr> author = gemini, text = lit ''ok'' \<rparr>],
         isProcessingFileQuery := True, error := None \<rparr>, Some (lit ''sum''))"
    using ne by (simp add: onMessage_begin_def Let_def accumulate_def t initial_App_def)
  have d: "fst (onMessage_begin ?files (Some (lit ''and'')) (Some (lit ''also'')) False st)
      = st\<lparr> currentInputTranscriptionRef := currentInputTranscriptionRef st @ lit ''and'',
            currentOutputTranscriptionRef := currentOutputTranscriptionRef st @ lit ''also'' \<rparr>"
    for st
    using ne by (simp add: onMessage_begin_def Let_def accumulate_def)
  have a: "currentInputTranscriptionRef
      (fst (onMessage_begin ?files (Some (lit ''more'')) None False
         (onMessage_settle answered speak st))) = lit ''more''" for answered speak st
    using ne by (simp add: onMessage_begin_def Let_def accumulate_def onMessage_settle_resets)
  have f: "fragments [Some (lit ''and'')] = lit ''and''"
    "fragments [Some (lit ''also'')] = lit ''also''"
    "fragments [Some (lit ''and''), Some (lit ''more'')] = lit ''andmore''"
    "lit ''sum'' @ lit ''and'' = lit ''sumand''" "lit ''ok'' @ lit ''also'' = lit ''okalso''"
    by (simp_all add: fragments_def lit_def)
  show ?thesis
    unfolding Let_def b by (simp add: d a f)
qed

end
